theory Spec2Isabelle
  imports Complex_Main "HOL-Library.Multiset"
begin

section \<open>Data model\<close>

text \<open>
  The program is the class \<^verbatim>\<open>AlphaVantageDataFetcher\<close> of \<^verbatim>\<open>fetch.py\<close>. Its methods
  are short, and most of what they do is done by pandas; the pandas operations the methods
  call are modelled below next to the methods, each under the name pandas gives it.

  A Python exception is a value of \<open>error\<close>; a method that can raise returns
  \<open>error + 'a\<close> with \<open>Inl\<close> for the exception.
\<close>

datatype error =
    ConfigFileError            \<comment> \<open>\<^verbatim>\<open>open(config_path)\<close> or \<^verbatim>\<open>yaml.safe_load\<close> raises\<close>
  | CredentialError            \<comment> \<open>\<^verbatim>\<open>ValueError("Please set ALPHA_VANTAGE_API_KEY ...")\<close>\<close>
  | TransportError             \<comment> \<open>\<^verbatim>\<open>requests.get\<close> or \<^verbatim>\<open>response.json()\<close> raises\<close>
  | KeyError string            \<comment> \<open>a missing dictionary key or frame column\<close>
  | PayloadError               \<comment> \<open>\<^verbatim>\<open>from_dict\<close> on a value that is not a dictionary\<close>
  | FloatError                 \<comment> \<open>a cell that \<^verbatim>\<open>dtype=float\<close> cannot convert\<close>
  | DateError                  \<comment> \<open>an index label that \<^verbatim>\<open>pd.to_datetime\<close> cannot parse\<close>
  | LengthMismatch nat nat     \<comment> \<open>\<^verbatim>\<open>df.columns = [...]\<close> with the wrong number of names\<close>
  | DuplicateLabels            \<comment> \<open>reindexing a series whose index has duplicates\<close>

text \<open>
  A float64 cell. A finite value is a real number (the sign of zero, which shows only in the
  sign of the infinity that a division by zero gives, is not modelled); the
  two infinities and NaN are values of their own. An arithmetic operation gives its exact
  result through a rounding: \<open>round64\<close> is the rounding of IEEE 754 binary64, to the
  nearest value with ties to the even one and with overflow to an infinity, and \<open>exact\<close>
  is no rounding at all, for what a computation gives in exact arithmetic.
\<close>

datatype float64 = Fin real | PInf | NInf | NaN

type_synonym rounding = "real \<Rightarrow> float64"

definition exact :: rounding where
  "exact x = Fin x"

definition half_even :: "real \<Rightarrow> int" where
  \<comment> \<open>the nearest integer, the even one of two that are equally near\<close>
  "half_even q =
     (let f = \<lfloor>q\<rfloor>; d = q - of_int f
      in if d < 1 / 2 then f else if 1 / 2 < d then f + 1 else if even f then f else f + 1)"

definition round64 :: rounding where
  \<comment> \<open>53 significant bits for an exponent from -1022 (below it the spacing stays that of
      the subnormal values) to 1023; a rounded magnitude of \<open>2\<^sup>1\<^sup>0\<^sup>2\<^sup>4\<close> or more overflows\<close>
  "round64 x =
     (if x = 0 then Fin 0
      else
        (let e = max \<lfloor>log 2 \<bar>x\<bar>\<rfloor> (- 1022);
             ulp = 2 powr (of_int e - 52);
             y = of_int (half_even (x / ulp)) * ulp
         in if 2 ^ 1024 \<le> \<bar>y\<bar> then (if 0 < x then PInf else NInf) else Fin y))"

fun fadd :: "rounding \<Rightarrow> float64 \<Rightarrow> float64 \<Rightarrow> float64" where
  "fadd r (Fin a) (Fin b) = r (a + b)"
| "fadd r NaN y = NaN"
| "fadd r x NaN = NaN"
| "fadd r PInf NInf = NaN"
| "fadd r NInf PInf = NaN"
| "fadd r PInf y = PInf"
| "fadd r NInf y = NInf"
| "fadd r x PInf = PInf"
| "fadd r x NInf = NInf"

fun fsub :: "rounding \<Rightarrow> float64 \<Rightarrow> float64 \<Rightarrow> float64" where
  "fsub r (Fin a) (Fin b) = r (a - b)"
| "fsub r NaN y = NaN"
| "fsub r x NaN = NaN"
| "fsub r PInf PInf = NaN"
| "fsub r NInf NInf = NaN"
| "fsub r PInf y = PInf"
| "fsub r NInf y = NInf"
| "fsub r x PInf = NInf"
| "fsub r x NInf = PInf"

fun fmul :: "rounding \<Rightarrow> float64 \<Rightarrow> float64 \<Rightarrow> float64" where
  "fmul r (Fin a) (Fin b) = r (a * b)"
| "fmul r NaN y = NaN"
| "fmul r x NaN = NaN"
| "fmul r (Fin a) PInf = (if a = 0 then NaN else if 0 < a then PInf else NInf)"
| "fmul r (Fin a) NInf = (if a = 0 then NaN else if 0 < a then NInf else PInf)"
| "fmul r PInf (Fin b) = (if b = 0 then NaN else if 0 < b then PInf else NInf)"
| "fmul r NInf (Fin b) = (if b = 0 then NaN else if 0 < b then NInf else PInf)"
| "fmul r PInf PInf = PInf"
| "fmul r NInf NInf = PInf"
| "fmul r x y = NInf"

fun truediv :: "rounding \<Rightarrow> float64 \<Rightarrow> float64 \<Rightarrow> float64" where
  "truediv r (Fin a) (Fin b) =
     (if b \<noteq> 0 then r (a / b)
      else if 0 < a then PInf else if a < 0 then NInf else NaN)"
| "truediv r NaN y = NaN"
| "truediv r x NaN = NaN"
| "truediv r (Fin a) y = Fin 0"
| "truediv r PInf (Fin b) = (if b < 0 then NInf else PInf)"
| "truediv r NInf (Fin b) = (if b < 0 then PInf else NInf)"
| "truediv r x y = NaN"

definition zsqrt :: "rounding \<Rightarrow> float64 \<Rightarrow> float64" where
  \<comment> \<open>\<^verbatim>\<open>zsqrt\<close> of pandas: the square root, and zero where the argument is negative\<close>
  "zsqrt r x =
     (case x of
        Fin a \<Rightarrow> if a < 0 then Fin 0 else r (sqrt a)
      | PInf \<Rightarrow> PInf
      | NInf \<Rightarrow> Fin 0
      | NaN \<Rightarrow> NaN)"

type_synonym timestamp = int

text \<open>
  A DataFrame: its index labels and its columns in order, each column a name and one cell
  per index label. A Series is an index and its values.
\<close>

record 'i frame =
  index :: "'i list"
  columns :: "(string \<times> float64 list) list"

type_synonym series = "timestamp list \<times> float64 list"

definition DataFrame :: "timestamp frame" where
  \<comment> \<open>\<^verbatim>\<open>pd.DataFrame()\<close>\<close>
  "DataFrame = \<lparr>index = [], columns = []\<rparr>"

definition empty :: "'i frame \<Rightarrow> bool" where
  \<comment> \<open>\<^verbatim>\<open>df.empty\<close>: some axis has length 0\<close>
  "empty df = (index df = [] \<or> columns df = [])"

text \<open>
  The decoded JSON body of a response: an object whose members are either a table (date
  string to field name to value string, in the order of the document) or anything else,
  such as the text of a provider notice.
\<close>

type_synonym payload = "(string \<times> (string \<times> string) list) list"

datatype jvalue = Table payload | Text string

type_synonym response = "string \<rightharpoonup> jvalue"

datatype pval = PStr string | PInt int

type_synonym params = "(string \<times> pval) list"

type_synonym request = "string \<times> params"

type_synonym provider = "request \<Rightarrow> response option"

text \<open>
  What the normalisation takes from pandas and numpy is a parameter: the conversion of a
  cell to float64, \<^verbatim>\<open>pd.to_datetime\<close> on a whole index (pandas reads the labels
  together, by the format of the first), both \<open>None\<close> where they raise, and the argsort
  that \<^verbatim>\<open>sort_index\<close> uses, which need not be stable. A timestamp is an integer, in
  whatever unit.
\<close>

record lib =
  to_float :: "string \<Rightarrow> float64 option"
  to_datetime :: "string list \<Rightarrow> timestamp list option"
  argsort :: "timestamp list \<Rightarrow> nat list"

record fetcher =
  config :: "string \<rightharpoonup> pval"
  api_key :: string
  base_url :: string

section \<open>The pandas operations used\<close>

fun setitem :: "'k \<Rightarrow> 'v \<Rightarrow> ('k \<times> 'v) list \<Rightarrow> ('k \<times> 'v) list" where
  \<comment> \<open>\<^verbatim>\<open>d[k] = v\<close> on an ordered dictionary: in place when the key exists, else appended\<close>
  "setitem k v [] = [(k, v)]"
| "setitem k v ((k', v') # kvs) =
     (if k' = k then (k, v) # kvs else (k', v') # setitem k v kvs)"

definition first_seen :: "'a list \<Rightarrow> 'a list" where
  \<comment> \<open>the distinct elements in the order of their first occurrence\<close>
  "first_seen xs = rev (remdups (rev xs))"

definition field_names :: "payload \<Rightarrow> string list" where
  \<comment> \<open>the columns of \<^verbatim>\<open>from_dict\<close>: the field names in the order they are first met\<close>
  "field_names data = first_seen (concat (map (\<lambda>(d, fs). map fst fs) data))"

definition row_labels :: "payload \<Rightarrow> string list" where
  \<comment> \<open>the index of \<^verbatim>\<open>from_dict\<close>: the union of the columns' row labels, so that a row
      without fields has none\<close>
  "row_labels data =
     first_seen (concat (map (\<lambda>c. map fst (filter (\<lambda>(d, fs). c \<in> set (map fst fs)) data))
                             (field_names data)))"

definition cell :: "lib \<Rightarrow> payload \<Rightarrow> string \<Rightarrow> string \<Rightarrow> float64 option" where
  \<comment> \<open>the cell of column \<open>c\<close> in row \<open>d\<close>: NaN where the row has no such field, \<open>None\<close>
      where the conversion to float raises\<close>
  "cell l data c d =
     (case map_of data d of
        None \<Rightarrow> Some NaN
      | Some fs \<Rightarrow> (case map_of fs c of None \<Rightarrow> Some NaN | Some s \<Rightarrow> to_float l s))"

definition from_dict :: "lib \<Rightarrow> payload \<Rightarrow> error + string frame" where
  \<comment> \<open>\<^verbatim>\<open>pd.DataFrame.from_dict(data, orient='index', dtype=float)\<close>\<close>
  "from_dict l data =
     (let cols = field_names data;
          idx = row_labels data
      in case those (map (\<lambda>c. those (map (cell l data c) idx)) cols) of
           None \<Rightarrow> Inl FloatError
         | Some vals \<Rightarrow> Inr \<lparr>index = idx, columns = zip cols vals\<rparr>)"

definition sorting :: "nat list \<Rightarrow> timestamp list \<Rightarrow> bool" where
  \<comment> \<open>\<open>p\<close> lists the positions of \<open>idx\<close>, each once, in an order that sorts \<open>idx\<close>\<close>
  "sorting p idx \<longleftrightarrow> sort p = [0..<length idx] \<and> sorted (map (\<lambda>k. idx ! k) p)"

definition row_order :: "lib \<Rightarrow> timestamp list \<Rightarrow> nat list" where
  \<comment> \<open>the order in which \<^verbatim>\<open>sort_index\<close> takes the rows: as they are when the index
      is ascending already, else by the argsort. Any sorting order of numpy's is a value of
      the parameter; a parameter that does not sort stands for the stable sort\<close>
  "row_order l idx =
     (if sorted idx then [0..<length idx]
      else if sorting (argsort l idx) idx then argsort l idx
      else sort_key (\<lambda>k. idx ! k) [0..<length idx])"

definition sort_index :: "lib \<Rightarrow> timestamp frame \<Rightarrow> timestamp frame" where
  \<comment> \<open>\<^verbatim>\<open>df.sort_index()\<close>: index and columns take the rows in the same order\<close>
  "sort_index l df =
     (let p = row_order l (index df)
      in \<lparr>index = map (\<lambda>k. index df ! k) p,
          columns = map (\<lambda>(c, vs). (c, map (\<lambda>k. vs ! k) p)) (columns df)\<rparr>)"

definition datetime_index :: "lib \<Rightarrow> string list \<Rightarrow> error + timestamp list" where
  \<comment> \<open>the value \<^verbatim>\<open>df.index = pd.to_datetime(df.index)\<close> gives the index: an index
      without labels parses to one without labels, and the assignment takes only as many
      labels as the frame has rows\<close>
  "datetime_index l labels =
     (if labels = [] then Inr []
      else case to_datetime l labels of
             None \<Rightarrow> Inl DateError
           | Some dates \<Rightarrow>
               if length dates \<noteq> length labels
               then Inl (LengthMismatch (length labels) (length dates))
               else Inr dates)"

definition set_columns :: "timestamp frame \<Rightarrow> string list \<Rightarrow> error + timestamp frame" where
  \<comment> \<open>\<^verbatim>\<open>df.columns = names\<close>: positional, and the number of names must fit\<close>
  "set_columns df names =
     (if length (columns df) \<noteq> length names
      then Inl (LengthMismatch (length (columns df)) (length names))
      else Inr (df\<lparr>columns := zip names (map snd (columns df))\<rparr>))"

definition getitem :: "timestamp frame \<Rightarrow> string \<Rightarrow> error + series" where
  \<comment> \<open>\<^verbatim>\<open>df[name]\<close>\<close>
  "getitem df name =
     (case map_of (columns df) name of
        None \<Rightarrow> Inl (KeyError name)
      | Some vs \<Rightarrow> Inr (index df, vs))"

definition reindex :: "series \<Rightarrow> timestamp list \<Rightarrow> error + float64 list" where
  \<comment> \<open>the values of a series aligned to a frame's index, as \<^verbatim>\<open>df[name] = s\<close> aligns
      them: taken as they are when the two indexes are equal, else looked up label by
      label (NaN where the series has no such label), which pandas refuses when the
      series has a label twice\<close>
  "reindex s idx =
     (if fst s = idx then Inr (snd s)
      else if \<not> distinct (fst s) then Inl DuplicateLabels
      else Inr (map (\<lambda>d. case map_of (zip (fst s) (snd s)) d of None \<Rightarrow> NaN | Some v \<Rightarrow> v) idx))"

definition setitem_series :: "timestamp frame \<Rightarrow> string \<Rightarrow> series \<Rightarrow> error + timestamp frame" where
  \<comment> \<open>\<^verbatim>\<open>df[name] = s\<close> for a series \<open>s\<close> and a frame with at least one row, which
      is the only case \<^verbatim>\<open>get_stock_data\<close> meets: a price frame that took its five column
      names has a row\<close>
  "setitem_series df name s =
     (case reindex s (index df) of
        Inl e \<Rightarrow> Inl e
      | Inr vs \<Rightarrow> Inr (df\<lparr>columns := setitem name vs (columns df)\<rparr>))"

subsection \<open>Percentage change and rolling standard deviation\<close>

text \<open>
  Both are given for any rounding, and the code's are those for \<open>round64\<close>.
\<close>

fun ffill_from :: "float64 \<Rightarrow> float64 list \<Rightarrow> float64 list" where
  "ffill_from prev [] = []"
| "ffill_from prev (x # xs) =
     (if x = NaN then prev # ffill_from prev xs else x # ffill_from x xs)"

definition pct_change_with :: "rounding \<Rightarrow> float64 list \<Rightarrow> float64 list" where
  \<comment> \<open>\<^verbatim>\<open>s.pct_change()\<close>: \<^verbatim>\<open>s / s.shift(1) - 1\<close> on the forward-filled values (the
      default \<^verbatim>\<open>fill_method='pad'\<close> of pandas 2)\<close>
  "pct_change_with r xs =
     (let data = ffill_from NaN xs;
          shifted = NaN # butlast data
      in map (\<lambda>(x, s). fsub r (truediv r x s) (Fin 1)) (zip data shifted))"

definition prep_values :: "float64 list \<Rightarrow> real option list" where
  \<comment> \<open>the rolling window's view of its input: an infinity counts as NaN, as NaN is missing\<close>
  "prep_values xs = map (\<lambda>x. case x of Fin r \<Rightarrow> Some r | _ \<Rightarrow> None) xs"

text \<open>
  The rolling variance of pandas (\<^verbatim>\<open>roll_var\<close> with \<^verbatim>\<open>add_var\<close>, \<^verbatim>\<open>remove_var\<close> and
  \<^verbatim>\<open>calc_var\<close>): Welford's recurrence with a compensated mean, kept up from row to row
  as values enter and leave the window. The two counters are floats and integers in
  pandas, exact at any length of a series, and integers here.
\<close>

record var_state =
  nobs :: int
  mean_x :: float64
  ssqdm_x :: float64
  compensation_add :: float64
  compensation_remove :: float64
  num_consecutive_same_value :: int
  prev_value :: "real option"

definition add_var :: "rounding \<Rightarrow> real option \<Rightarrow> var_state \<Rightarrow> var_state" where
  "add_var r val st =
     (case val of
        None \<Rightarrow> st
      | Some v \<Rightarrow>
          (let n = nobs st + 1;
               same = (if prev_value st = Some v then num_consecutive_same_value st + 1 else 1);
               prev_mean = fsub r (mean_x st) (compensation_add st);
               y = fsub r (Fin v) (compensation_add st);
               t = fsub r y (mean_x st);
               compensation = fsub r (fadd r t (mean_x st)) y;
               mean = (if n \<noteq> 0 then fadd r (mean_x st) (truediv r t (Fin (of_int n))) else Fin 0);
               ssqdm = fadd r (ssqdm_x st) (fmul r (fsub r (Fin v) prev_mean) (fsub r (Fin v) mean))
           in st\<lparr>nobs := n, mean_x := mean, ssqdm_x := ssqdm, compensation_add := compensation,
                 num_consecutive_same_value := same, prev_value := Some v\<rparr>))"

definition remove_var :: "rounding \<Rightarrow> real option \<Rightarrow> var_state \<Rightarrow> var_state" where
  "remove_var r val st =
     (case val of
        None \<Rightarrow> st
      | Some v \<Rightarrow>
          (let n = nobs st - 1
           in if n \<noteq> 0
              then
                (let prev_mean = fsub r (mean_x st) (compensation_remove st);
                     y = fsub r (Fin v) (compensation_remove st);
                     t = fsub r y (mean_x st);
                     compensation = fsub r (fadd r t (mean_x st)) y;
                     mean = fsub r (mean_x st) (truediv r t (Fin (of_int n)));
                     ssqdm = fsub r (ssqdm_x st)
                               (fmul r (fsub r (Fin v) prev_mean) (fsub r (Fin v) mean))
                 in st\<lparr>nobs := n, mean_x := mean, ssqdm_x := ssqdm,
                       compensation_remove := compensation\<rparr>)
              else st\<lparr>nobs := n, mean_x := Fin 0, ssqdm_x := Fin 0\<rparr>))"

definition calc_var :: "rounding \<Rightarrow> nat \<Rightarrow> nat \<Rightarrow> var_state \<Rightarrow> float64" where
  "calc_var r minp ddof st =
     (if int minp \<le> nobs st \<and> int ddof < nobs st
      then if nobs st = 1 \<or> nobs st \<le> num_consecutive_same_value st then Fin 0
           else truediv r (ssqdm_x st) (Fin (of_int (nobs st - int ddof)))
      else NaN)"

definition value_at :: "real option list \<Rightarrow> nat \<Rightarrow> real option" where
  \<comment> \<open>\<^verbatim>\<open>values[j]\<close>; the loops below read inside the array only\<close>
  "value_at values j = (if j < length values then values ! j else None)"

definition window_start :: "nat \<Rightarrow> nat \<Rightarrow> nat" where
  \<comment> \<open>the bounds of a fixed window of \<open>w\<close> rows: row \<open>i\<close> has the window from
      \<open>max 0 (i + 1 - w)\<close> up to but not including \<open>i + 1\<close>\<close>
  "window_start w i = Suc i - w"

definition first_window :: "rounding \<Rightarrow> real option list \<Rightarrow> nat \<Rightarrow> nat \<Rightarrow> var_state" where
  \<comment> \<open>a window computed from nothing: its values are added one by one\<close>
  "first_window r values s e =
     fold (add_var r) (map (value_at values) [s..<e])
       \<lparr>nobs = 0, mean_x = Fin 0, ssqdm_x = Fin 0, compensation_add = Fin 0,
        compensation_remove = Fin 0, num_consecutive_same_value = 0, prev_value = value_at values s\<rparr>"

fun var_state_at :: "rounding \<Rightarrow> nat \<Rightarrow> real option list \<Rightarrow> nat \<Rightarrow> var_state" where
  \<comment> \<open>the state of \<^verbatim>\<open>roll_var\<close> when it writes row \<open>i\<close>: the first window, and a
      window that starts where the one before ended or later, are computed from nothing;
      any other takes the state of the row before, removes the values that left the window
      and adds those that entered\<close>
  "var_state_at r w values 0 = first_window r values (window_start w 0) 1"
| "var_state_at r w values (Suc i) =
     (let s = window_start w (Suc i); e = Suc (Suc i)
      in if Suc i \<le> s then first_window r values s e
         else fold (add_var r) (map (value_at values) [Suc i..<e])
                (fold (remove_var r) (map (value_at values) [window_start w i..<s])
                   (var_state_at r w values i)))"

definition roll_var :: "rounding \<Rightarrow> nat \<Rightarrow> nat \<Rightarrow> nat \<Rightarrow> real option list \<Rightarrow> float64 list" where
  "roll_var r w minp ddof values =
     map (\<lambda>i. calc_var r minp ddof (var_state_at r w values i)) [0..<length values]"

definition rolling_std_with :: "rounding \<Rightarrow> nat \<Rightarrow> float64 list \<Rightarrow> float64 list" where
  \<comment> \<open>\<^verbatim>\<open>s.rolling(w).std()\<close>: \<^verbatim>\<open>zsqrt\<close> of the rolling variance with \<^verbatim>\<open>ddof=1\<close>;
      \<^verbatim>\<open>min_periods\<close> defaults to the window size\<close>
  "rolling_std_with r w xs = map (zsqrt r) (roll_var r w w 1 (prep_values xs))"

definition volatility_with :: "rounding \<Rightarrow> float64 list \<Rightarrow> float64 list" where
  "volatility_with r close = rolling_std_with r 20 (pct_change_with r close)"

definition pct_change :: "float64 list \<Rightarrow> float64 list" where
  "pct_change = pct_change_with round64"

definition volatility :: "float64 list \<Rightarrow> float64 list" where
  \<comment> \<open>\<^verbatim>\<open>price_data['close'].pct_change().rolling(20).std()\<close>\<close>
  "volatility = volatility_with round64"

section \<open>The fetcher\<close>

definition init :: "(string \<rightharpoonup> pval) option \<Rightarrow> string option \<Rightarrow> error + fetcher" where
  \<comment> \<open>\<^verbatim>\<open>__init__\<close>, given what reading the configuration file gives (\<open>None\<close> where it
      raises) and the value of \<^verbatim>\<open>os.getenv('ALPHA_VANTAGE_API_KEY')\<close>\<close>
  "init config_file getenv =
     (case config_file of
        None \<Rightarrow> Inl ConfigFileError
      | Some cfg \<Rightarrow>
          (case getenv of
             None \<Rightarrow> Inl CredentialError
           | Some key \<Rightarrow>
               if key = [] then Inl CredentialError
               else Inr \<lparr>config = cfg, api_key = key,
                         base_url = ''https://www.alphavantage.co/query''\<rparr>))"

text \<open>
  The methods that call the provider take the list of the requests sent so far and return
  it extended, next to their result.
\<close>

definition outgoing :: "fetcher \<Rightarrow> params \<Rightarrow> request" where
  \<comment> \<open>the request \<^verbatim>\<open>_api_call\<close> sends: \<^verbatim>\<open>params['apikey'] = self.api_key\<close>, then
      \<^verbatim>\<open>requests.get(self.base_url, params=params)\<close>\<close>
  "outgoing self params = (base_url self, setitem ''apikey'' (PStr (api_key self)) params)"

definition api_call ::
  "fetcher \<Rightarrow> provider \<Rightarrow> params \<Rightarrow> request list \<Rightarrow> (error + response) \<times> request list" where
  "api_call self net params sent =
     (case net (outgoing self params) of
        None \<Rightarrow> (Inl TransportError, sent @ [outgoing self params])
      | Some data \<Rightarrow> (Inr data, sent @ [outgoing self params]))"

definition indexed_frame :: "lib \<Rightarrow> jvalue \<Rightarrow> error + timestamp frame" where
  \<comment> \<open>the three lines the four getters share: \<^verbatim>\<open>from_dict\<close>, \<^verbatim>\<open>pd.to_datetime\<close> on
      the index, \<^verbatim>\<open>sort_index\<close>\<close>
  "indexed_frame l v =
     (case v of
        Text t \<Rightarrow> Inl PayloadError
      | Table data \<Rightarrow>
          (case from_dict l data of
             Inl e \<Rightarrow> Inl e
           | Inr df \<Rightarrow>
               (case datetime_index l (index df) of
                  Inl e \<Rightarrow> Inl e
                | Inr dates \<Rightarrow> Inr (sort_index l \<lparr>index = dates, columns = columns df\<rparr>))))"

definition price_volume_params :: "pval \<Rightarrow> params" where
  "price_volume_params symbol =
     [(''function'', PStr ''TIME_SERIES_DAILY''), (''symbol'', symbol),
      (''outputsize'', PStr ''compact'')]"

definition get_price_volume ::
  "lib \<Rightarrow> fetcher \<Rightarrow> provider \<Rightarrow> pval \<Rightarrow> request list \<Rightarrow> (error + timestamp frame) \<times> request list" where
  "get_price_volume l self net symbol sent =
     (case api_call self net (price_volume_params symbol) sent of
        (Inl e, sent') \<Rightarrow> (Inl e, sent')
      | (Inr data, sent') \<Rightarrow>
          (case data ''Time Series (Daily)'' of
             None \<Rightarrow> (Inl (KeyError ''Time Series (Daily)''), sent')
           | Some ts_data \<Rightarrow>
               (case indexed_frame l ts_data of
                  Inl e \<Rightarrow> (Inl e, sent')
                | Inr df \<Rightarrow>
                    (set_columns df [''open'', ''high'', ''low'', ''close'', ''volume''], sent'))))"

definition get_indicator ::
  "lib \<Rightarrow> fetcher \<Rightarrow> provider \<Rightarrow> params \<Rightarrow> string \<Rightarrow> request list \<Rightarrow>
   (error + timestamp frame) \<times> request list" where
  \<comment> \<open>the body the three indicator getters share, for the parameters and the payload key
      of each\<close>
  "get_indicator l self net params key sent =
     (case api_call self net params sent of
        (Inl e, sent') \<Rightarrow> (Inl e, sent')
      | (Inr data, sent') \<Rightarrow>
          (case data key of
             Some v \<Rightarrow> (indexed_frame l v, sent')
           | None \<Rightarrow> (Inr DataFrame, sent')))"

definition rsi_params :: "pval \<Rightarrow> params" where
  "rsi_params symbol =
     [(''function'', PStr ''RSI''), (''symbol'', symbol), (''interval'', PStr ''daily''),
      (''time_period'', PInt 14), (''series_type'', PStr ''close'')]"

definition macd_params :: "pval \<Rightarrow> params" where
  "macd_params symbol =
     [(''function'', PStr ''MACD''), (''symbol'', symbol), (''interval'', PStr ''daily''),
      (''series_type'', PStr ''close'')]"

definition sma_params :: "pval \<Rightarrow> params" where
  "sma_params symbol =
     [(''function'', PStr ''SMA''), (''symbol'', symbol), (''interval'', PStr ''daily''),
      (''time_period'', PInt 20), (''series_type'', PStr ''close'')]"

definition get_rsi ::
  "lib \<Rightarrow> fetcher \<Rightarrow> provider \<Rightarrow> pval \<Rightarrow> request list \<Rightarrow> (error + timestamp frame) \<times> request list" where
  "get_rsi l self net symbol =
     get_indicator l self net (rsi_params symbol) ''Technical Analysis: RSI''"

definition get_macd ::
  "lib \<Rightarrow> fetcher \<Rightarrow> provider \<Rightarrow> pval \<Rightarrow> request list \<Rightarrow> (error + timestamp frame) \<times> request list" where
  "get_macd l self net symbol =
     get_indicator l self net (macd_params symbol) ''Technical Analysis: MACD''"

definition get_sma ::
  "lib \<Rightarrow> fetcher \<Rightarrow> provider \<Rightarrow> pval \<Rightarrow> request list \<Rightarrow> (error + timestamp frame) \<times> request list" where
  "get_sma l self net symbol =
     get_indicator l self net (sma_params symbol) ''Technical Analysis: SMA''"

definition assign :: "timestamp frame \<Rightarrow> string \<Rightarrow> timestamp frame \<Rightarrow> string \<Rightarrow> error + timestamp frame" where
  \<comment> \<open>\<^verbatim>\<open>combined_data[name] = ind[col]\<close>\<close>
  "assign combined_data name ind col =
     (case getitem ind col of
        Inl e \<Rightarrow> Inl e
      | Inr s \<Rightarrow> setitem_series combined_data name s)"

definition with_volatility :: "timestamp frame \<Rightarrow> error + timestamp frame" where
  \<comment> \<open>\<^verbatim>\<open>price_data['volatility'] = price_data['close'].pct_change().rolling(20).std()\<close>\<close>
  "with_volatility price_data =
     (case getitem price_data ''close'' of
        Inl e \<Rightarrow> Inl e
      | Inr close \<Rightarrow> setitem_series price_data ''volatility'' (fst close, volatility (snd close)))"

definition combine ::
  "timestamp frame \<Rightarrow> timestamp frame \<Rightarrow> timestamp frame \<Rightarrow> timestamp frame \<Rightarrow> error + timestamp frame" where
  \<comment> \<open>lines 39 to 48 of \<^verbatim>\<open>get_stock_data\<close>: the merge\<close>
  "combine price_data rsi macd sma =
     (case (if \<not> empty rsi then assign price_data ''rsi'' rsi ''RSI'' else Inr price_data) of
        Inl e \<Rightarrow> Inl e
      | Inr c1 \<Rightarrow>
          (case (if \<not> empty macd
                 then (case assign c1 ''macd'' macd ''MACD'' of
                         Inl e \<Rightarrow> Inl e
                       | Inr c \<Rightarrow> assign c ''macd_signal'' macd ''MACD_Signal'')
                 else Inr c1) of
             Inl e \<Rightarrow> Inl e
           | Inr c2 \<Rightarrow>
               (if \<not> empty sma then assign c2 ''sma_20'' sma ''SMA'' else Inr c2)))"

definition get_stock_data ::
  "lib \<Rightarrow> fetcher \<Rightarrow> provider \<Rightarrow> request list \<Rightarrow> (error + timestamp frame) \<times> request list" where
  "get_stock_data l self net sent =
     (case config self ''symbol'' of
        None \<Rightarrow> (Inl (KeyError ''symbol''), sent)
      | Some symbol \<Rightarrow>
          (case get_price_volume l self net symbol sent of
             (Inl e, s1) \<Rightarrow> (Inl e, s1)
           | (Inr price_data, s1) \<Rightarrow>
               (case with_volatility price_data of
                  Inl e \<Rightarrow> (Inl e, s1)
                | Inr price_data \<Rightarrow>
                    (case get_rsi l self net symbol s1 of
                       (Inl e, s2) \<Rightarrow> (Inl e, s2)
                     | (Inr rsi, s2) \<Rightarrow>
                         (case get_macd l self net symbol s2 of
                            (Inl e, s3) \<Rightarrow> (Inl e, s3)
                          | (Inr macd, s3) \<Rightarrow>
                              (case get_sma l self net symbol s3 of
                                 (Inl e, s4) \<Rightarrow> (Inl e, s4)
                               | (Inr sma, s4) \<Rightarrow> (combine price_data rsi macd sma, s4)))))))"

definition main ::
  "lib \<Rightarrow> (string \<rightharpoonup> pval) option \<Rightarrow> string option \<Rightarrow> provider \<Rightarrow>
   (error + timestamp frame) \<times> request list" where
  \<comment> \<open>\<^verbatim>\<open>main\<close> up to the table it writes out: the fetcher is built, then asked for the data\<close>
  "main l config_file getenv net =
     (case init config_file getenv of
        Inl e \<Rightarrow> (Inl e, [])
      | Inr fetcher \<Rightarrow> get_stock_data l fetcher net [])"

section \<open>Example inputs\<close>

text \<open>
  Two parsers given by finite tables (dates as day numbers, 19724 being 2 January 2024), an
  argsort, a configuration, and a provider that answers the four requests in the
  documented shapes.
\<close>

definition ex_lib :: lib where
  "ex_lib =
     \<lparr>to_float = map_of [(''1'', Fin 1), (''2'', Fin 2), (''3'', Fin 3), (''4'', Fin 4)],
      to_datetime =
        (\<lambda>labels. those (map (map_of [(''2024-01-02'', 19724), (''2024-01-03'', 19725),
                                         (''01/02/2024'', 19724), (''1/2/2024'', 19724)]) labels)),
      argsort = (\<lambda>idx. sort_key (\<lambda>k. idx ! k) [0..<length idx])\<rparr>"

definition ex_config :: "string \<rightharpoonup> pval" where
  "ex_config = [''symbol'' \<mapsto> PStr ''IBM'']"

definition ex_prices :: payload where
  "ex_prices =
     [(''2024-01-03'', [(''1. open'', ''1''), (''2. high'', ''3''), (''3. low'', ''1''),
                        (''4. close'', ''2''), (''5. volume'', ''4'')]),
      (''2024-01-02'', [(''1. open'', ''1''), (''2. high'', ''2''), (''3. low'', ''1''),
                        (''4. close'', ''1''), (''5. volume'', ''3'')])]"

definition ex_net :: "(string \<rightharpoonup> response) \<Rightarrow> provider" where
  \<comment> \<open>a provider that answers by the \<^verbatim>\<open>function\<close> parameter of the request, and fails
      where the table has no answer\<close>
  "ex_net answers req =
     (case map_of (snd req) ''function'' of
        Some (PStr f) \<Rightarrow> answers f
      | _ \<Rightarrow> None)"

definition ex_answers :: "string \<rightharpoonup> response" where
  \<comment> \<open>prices for two days, an RSI for the second day only, a notice in place of the MACD,
      an SMA for both days\<close>
  "ex_answers =
     [''TIME_SERIES_DAILY'' \<mapsto> [''Time Series (Daily)'' \<mapsto> Table ex_prices],
      ''RSI'' \<mapsto> [''Technical Analysis: RSI'' \<mapsto> Table [(''2024-01-03'', [(''RSI'', ''3'')])]],
      ''MACD'' \<mapsto> [''Note'' \<mapsto> Text ''call frequency''],
      ''SMA'' \<mapsto> [''Technical Analysis: SMA'' \<mapsto>
                  Table [(''2024-01-03'', [(''SMA'', ''2'')]), (''2024-01-02'', [(''SMA'', ''1'')])]]]"

definition ex_requests :: "request list" where
  \<comment> \<open>the four requests of a run for IBM with the key \<^verbatim>\<open>demo\<close>\<close>
  "ex_requests =
     [(''https://www.alphavantage.co/query'',
       [(''function'', PStr ''TIME_SERIES_DAILY''), (''symbol'', PStr ''IBM''),
        (''outputsize'', PStr ''compact''), (''apikey'', PStr ''demo'')]),
      (''https://www.alphavantage.co/query'',
       [(''function'', PStr ''RSI''), (''symbol'', PStr ''IBM''), (''interval'', PStr ''daily''),
        (''time_period'', PInt 14), (''series_type'', PStr ''close''), (''apikey'', PStr ''demo'')]),
      (''https://www.alphavantage.co/query'',
       [(''function'', PStr ''MACD''), (''symbol'', PStr ''IBM''), (''interval'', PStr ''daily''),
        (''series_type'', PStr ''close''), (''apikey'', PStr ''demo'')]),
      (''https://www.alphavantage.co/query'',
       [(''function'', PStr ''SMA''), (''symbol'', PStr ''IBM''), (''interval'', PStr ''daily''),
        (''time_period'', PInt 20), (''series_type'', PStr ''close''), (''apikey'', PStr ''demo'')])]"

definition ex_table :: "timestamp frame" where
  \<comment> \<open>the table of that run on \<open>ex_answers\<close>\<close>
  "ex_table =
     \<lparr>index = [19724, 19725],
      columns =
        [(''open'', [Fin 1, Fin 1]), (''high'', [Fin 2, Fin 3]), (''low'', [Fin 1, Fin 1]),
         (''close'', [Fin 1, Fin 2]), (''volume'', [Fin 3, Fin 4]), (''volatility'', [NaN, NaN]),
         (''rsi'', [NaN, Fin 3]), (''sma_20'', [Fin 1, Fin 2])]\<rparr>"

definition ex_fetcher :: fetcher where
  "ex_fetcher =
     \<lparr>config = ex_config, api_key = ''demo'', base_url = ''https://www.alphavantage.co/query''\<rparr>"

definition ex_price :: "timestamp frame" where
  \<comment> \<open>the price series of \<open>ex_answers\<close>, normalised\<close>
  "ex_price =
     \<lparr>index = [19724, 19725],
      columns =
        [(''open'', [Fin 1, Fin 1]), (''high'', [Fin 2, Fin 3]), (''low'', [Fin 1, Fin 1]),
         (''close'', [Fin 1, Fin 2]), (''volume'', [Fin 3, Fin 4])]\<rparr>"

definition ex_rsi :: "timestamp frame" where
  "ex_rsi = \<lparr>index = [19725], columns = [(''RSI'', [Fin 3])]\<rparr>"

definition ex_sma :: "timestamp frame" where
  "ex_sma = \<lparr>index = [19724, 19725], columns = [(''SMA'', [Fin 1, Fin 2])]\<rparr>"

definition ex_answers_no_macd :: "string \<rightharpoonup> response" where
  \<comment> \<open>as \<open>ex_answers\<close>, but the MACD request fails in transport\<close>
  "ex_answers_no_macd = ex_answers(''MACD'' := None)"

definition ex_answers_bad_rsi :: "string \<rightharpoonup> response" where
  \<comment> \<open>as \<open>ex_answers\<close>, but the RSI value is not a number\<close>
  "ex_answers_bad_rsi =
     ex_answers(''RSI'' \<mapsto> [''Technical Analysis: RSI'' \<mapsto> Table [(''2024-01-03'', [(''RSI'', ''n/a'')])]])"

definition ex_answers_empty :: "string \<rightharpoonup> response" where
  \<comment> \<open>every payload key is present and maps to no entries\<close>
  "ex_answers_empty =
     [''TIME_SERIES_DAILY'' \<mapsto> [''Time Series (Daily)'' \<mapsto> Table []],
      ''RSI'' \<mapsto> [''Technical Analysis: RSI'' \<mapsto> Table []],
      ''MACD'' \<mapsto> [''Technical Analysis: MACD'' \<mapsto> Table []],
      ''SMA'' \<mapsto> [''Technical Analysis: SMA'' \<mapsto> Table []]]"

definition ex_answers_two_formats :: "string \<rightharpoonup> response" where
  \<comment> \<open>as \<open>ex_answers\<close>, but the RSI payload writes 2 January 2024 in two ways\<close>
  "ex_answers_two_formats =
     ex_answers(''RSI'' \<mapsto> [''Technical Analysis: RSI'' \<mapsto>
        Table [(''01/02/2024'', [(''RSI'', ''1'')]), (''1/2/2024'', [(''RSI'', ''2'')])]])"

definition ex_closes_alternating :: "real list" where
  \<comment> \<open>21 closes, by turns 1 and 2: the changes are by turns 1 and -1/2\<close>
  "ex_closes_alternating = map (\<lambda>j. if even j then 1 else 2) [0..<21]"

definition ex_closes_overflow :: "real list" where
  \<comment> \<open>22 closes, none of them zero, whose second is \<open>2\<^sup>1\<^sup>0\<^sup>4\<^sup>0\<close> times the first\<close>
  "ex_closes_overflow = 1 / 2 ^ 520 # 2 ^ 520 # replicate 20 1"

section \<open>Terms used in the statements\<close>

definition attached :: "timestamp frame \<Rightarrow> string \<Rightarrow> timestamp list \<Rightarrow> (string \<times> float64 list) \<Rightarrow> bool" where
  \<comment> \<open>the column \<open>c\<close> is column \<open>col\<close> of the frame \<open>ind\<close>, aligned to the index \<open>idx\<close>\<close>
  "attached ind col idx c \<longleftrightarrow>
     (\<exists>vals. map_of (columns ind) col = Some vals \<and> reindex (index ind, vals) idx = Inr (snd c))"

definition matched :: "timestamp list \<Rightarrow> float64 list \<Rightarrow> timestamp frame \<Rightarrow> string \<Rightarrow> bool" where
  \<comment> \<open>the cells \<open>vs\<close> of a table column on the index \<open>idx\<close> come from column \<open>col\<close> of
      the frame \<open>ind\<close> by exact match of the date: a cell is NaN for a date \<open>ind\<close> lacks,
      and is otherwise the value \<open>ind\<close> has in a row of that very date\<close>
  "matched idx vs ind col \<longleftrightarrow>
     (\<exists>vals. map_of (columns ind) col = Some vals \<and> length vs = length idx \<and>
        (\<forall>i < length idx.
           (idx ! i \<notin> set (index ind) \<and> vs ! i = NaN) \<or>
           (idx ! i, vs ! i) \<in> set (zip (index ind) vals)))"

definition window :: "nat \<Rightarrow> 'a list \<Rightarrow> nat \<Rightarrow> 'a list" where
  \<comment> \<open>the trailing window of at most \<open>w\<close> values ending at position \<open>i\<close>\<close>
  "window w xs i = drop (Suc i - w) (take (Suc i) xs)"

definition observed :: "real option list \<Rightarrow> real list" where
  \<comment> \<open>the values of a window that are present\<close>
  "observed win = concat (map (\<lambda>v. case v of None \<Rightarrow> [] | Some x \<Rightarrow> [x]) win)"

definition ssq :: "real list \<Rightarrow> real" where
  \<comment> \<open>the sum of the squared deviations from the mean\<close>
  "ssq xs = (\<Sum>x\<leftarrow>xs. (x - sum_list xs / real (length xs))\<^sup>2)"

definition tracks :: "var_state \<Rightarrow> real list \<Rightarrow> real list \<Rightarrow> bool" where
  \<comment> \<open>what the state of the rolling variance holds in exact arithmetic, when \<open>seen\<close> are the
      values added so far and \<open>obs\<close>, the last of them, are those of the window: their
      number, mean and sum of squared deviations, no compensation, and the length of the
      run of equal values that \<open>seen\<close> ends with\<close>
  "tracks st seen obs \<longleftrightarrow>
     nobs st = int (length obs) \<and>
     compensation_add st = Fin 0 \<and> compensation_remove st = Fin 0 \<and>
     mean_x st = Fin (if obs = [] then 0 else sum_list obs / real (length obs)) \<and>
     ssqdm_x st = Fin (ssq obs) \<and>
     (\<exists>ys. seen = ys @ obs) \<and>
     (seen = [] \<longrightarrow> num_consecutive_same_value st = 0) \<and>
     (seen \<noteq> [] \<longrightarrow> prev_value st = Some (last seen)) \<and>
     0 \<le> num_consecutive_same_value st \<and>
     num_consecutive_same_value st \<le> int (length seen) \<and>
     (\<forall>x \<in> set (drop (length seen - nat (num_consecutive_same_value st)) seen). x = last seen)"

definition pct :: "real list \<Rightarrow> nat \<Rightarrow> real option" where
  \<comment> \<open>the percentage change of the specification: \<open>r\<^sub>i = (c\<^sub>i - c\<^sub>i\<^sub>-\<^sub>1) / c\<^sub>i\<^sub>-\<^sub>1\<close>, undefined
      for the first row and where the denominator is zero\<close>
  "pct close i =
     (if i = 0 \<or> close ! (i - 1) = 0 then None
      else Some ((close ! i - close ! (i - 1)) / close ! (i - 1)))"

definition sample_std :: "real list \<Rightarrow> real" where
  \<comment> \<open>the sample standard deviation of the specification, with the divisor \<open>n - 1\<close>\<close>
  "sample_std xs =
     sqrt ((\<Sum>x\<leftarrow>xs. (x - sum_list xs / real (length xs))\<^sup>2) / (real (length xs) - 1))"

section \<open>Facts about the pandas operations\<close>

lemma those_eq_Some: "those xs = Some ys \<longleftrightarrow> xs = map Some ys"
  by (induction xs arbitrary: ys) (auto split: option.splits)

lemma set_first_seen [simp]: "set (first_seen xs) = set xs"
  by (simp add: first_seen_def)

lemma distinct_first_seen [simp]: "distinct (first_seen xs)"
  by (simp add: first_seen_def)

lemma first_seen_Nil_iff [simp]: "first_seen xs = [] \<longleftrightarrow> xs = []"
  by (metis set_first_seen set_empty)

lemma set_field_names: "set (field_names data) = {c. \<exists>d fs v. (d, fs) \<in> set data \<and> (c, v) \<in> set fs}"
  unfolding field_names_def by force

lemma set_row_labels: "set (row_labels data) = {d. \<exists>fs. (d, fs) \<in> set data \<and> fs \<noteq> []}"
proof (intro set_eqI iffI)
  fix d assume "d \<in> set (row_labels data)"
  then obtain c fs where "(d, fs) \<in> set data" "c \<in> set (map fst fs)"
    unfolding row_labels_def by force
  then show "d \<in> {d. \<exists>fs. (d, fs) \<in> set data \<and> fs \<noteq> []}" by auto
next
  fix d assume "d \<in> {d. \<exists>fs. (d, fs) \<in> set data \<and> fs \<noteq> []}"
  then obtain fs where fs: "(d, fs) \<in> set data" "fs \<noteq> []" by auto
  then obtain c v where cv: "(c, v) \<in> set fs" by (cases fs) auto
  with fs have "c \<in> set (field_names data)" by (auto simp: set_field_names)
  moreover have "d \<in> set (map fst (filter (\<lambda>(d, fs). c \<in> set (map fst fs)) data))"
    using fs cv by force
  ultimately show "d \<in> set (row_labels data)"
    unfolding row_labels_def by auto
qed

lemma row_labels_Nil_iff: "row_labels data = [] \<longleftrightarrow> field_names data = []"
proof -
  have "set (row_labels data) = {} \<longleftrightarrow> set (field_names data) = {}"
  proof
    assume a: "set (row_labels data) = {}"
    show "set (field_names data) = {}"
    proof (rule ccontr)
      assume "set (field_names data) \<noteq> {}"
      then obtain c d fs v where "(d, fs) \<in> set data" "(c, v) \<in> set fs"
        unfolding set_field_names by blast
      then have "d \<in> set (row_labels data)"
        unfolding set_row_labels by auto
      with a show False by simp
    qed
  next
    assume a: "set (field_names data) = {}"
    show "set (row_labels data) = {}"
    proof (rule ccontr)
      assume "set (row_labels data) \<noteq> {}"
      then obtain d fs where "(d, fs) \<in> set data" "fs \<noteq> []"
        unfolding set_row_labels by blast
      then obtain c v where "(d, fs) \<in> set data" "(c, v) \<in> set fs"
        by (cases fs) auto
      then have "c \<in> set (field_names data)"
        unfolding set_field_names by blast
      with a show False by simp
    qed
  qed
  then show ?thesis by simp
qed

lemma distinct_row_labels: "distinct (row_labels data)"
  by (simp add: row_labels_def)

lemma distinct_field_names: "distinct (field_names data)"
  by (simp add: field_names_def)

lemma from_dict_Inr:
  assumes "from_dict l data = Inr df"
  shows "index df = row_labels data"
    and "map fst (columns df) = field_names data"
    and "\<forall>vs \<in> snd ` set (columns df). length vs = length (index df)"
    and "columns df =
      map (\<lambda>c. (c, map (\<lambda>d. the (cell l data c d)) (row_labels data))) (field_names data)"
proof -
  from assms obtain vals where
    v: "map (\<lambda>c. those (map (cell l data c) (row_labels data))) (field_names data) = map Some vals"
    and df: "df = \<lparr>index = row_labels data, columns = zip (field_names data) vals\<rparr>"
    by (auto simp: from_dict_def Let_def those_eq_Some split: option.splits)
  from v have len: "length vals = length (field_names data)"
    by (metis length_map)
  have col: "vals ! k = map (\<lambda>d. the (cell l data (field_names data ! k) d)) (row_labels data)"
    if "k < length vals" for k
  proof -
    have "map (\<lambda>c. those (map (cell l data c) (row_labels data))) (field_names data) ! k =
        map Some vals ! k"
      using v by simp
    then have "those (map (cell l data (field_names data ! k)) (row_labels data)) = Some (vals ! k)"
      using that len by simp
    then have "map (cell l data (field_names data ! k)) (row_labels data) = map Some (vals ! k)"
      by (simp add: those_eq_Some)
    then have "map (the \<circ> cell l data (field_names data ! k)) (row_labels data) =
        map (the \<circ> Some) (vals ! k)"
      by (metis map_map)
    then show ?thesis by (simp add: comp_def)
  qed
  show "index df = row_labels data" by (simp add: df)
  show "map fst (columns df) = field_names data"
    using len by (simp add: df)
  show c: "columns df =
      map (\<lambda>c. (c, map (\<lambda>d. the (cell l data c d)) (row_labels data))) (field_names data)"
    unfolding df using len col by (auto intro!: nth_equalityI)
  show "\<forall>vs \<in> snd ` set (columns df). length vs = length (index df)"
    unfolding c by (auto simp: df)
qed

lemma from_dict_Nil: "from_dict l [] = Inr \<lparr>index = [], columns = []\<rparr>"
  by (simp add: from_dict_def field_names_def row_labels_def first_seen_def)

lemma sorting_perm:
  assumes "sorting p idx"
  shows "mset p = mset [0..<length idx]" and "length p = length idx"
    and "distinct p" and "set p = {0..<length idx}"
proof -
  from assms have s: "sort p = [0..<length idx]" by (simp add: sorting_def)
  have "mset (sort p) = mset p" by simp
  with s show m: "mset p = mset [0..<length idx]" by simp
  from m show "length p = length idx" by (metis size_mset length_upt diff_zero)
  from m show "distinct p" by (metis distinct_upt mset_eq_imp_distinct_iff)
  from m show "set p = {0..<length idx}" by (metis set_mset_mset set_upt)
qed

lemma sorting_sort:
  assumes "sorting p idx"
  shows "map (\<lambda>k. idx ! k) p = sort idx"
proof -
  have "mset (map (\<lambda>k. idx ! k) p) = image_mset (\<lambda>k. idx ! k) (mset [0..<length idx])"
    using sorting_perm(1)[OF assms] by (metis mset_map)
  also have "\<dots> = mset (map (\<lambda>k. idx ! k) [0..<length idx])" by simp
  also have "\<dots> = mset idx" by (simp add: map_nth)
  finally have "mset (map (\<lambda>k. idx ! k) p) = mset idx" .
  moreover have "sorted (map (\<lambda>k. idx ! k) p)" using assms by (simp add: sorting_def)
  ultimately show ?thesis by (rule properties_for_sort[symmetric])
qed

lemma sorting_row_order: "sorting (row_order l idx) idx"
proof -
  have a: "sorting [0..<length idx] idx" if "sorted idx"
    using that by (simp add: sorting_def map_nth sort_key_id_if_sorted)
  have "sort (sort_key (\<lambda>k. idx ! k) [0..<length idx]) = sort [0..<length idx]"
    by (intro properties_for_sort) simp_all
  then have b: "sorting (sort_key (\<lambda>k. idx ! k) [0..<length idx]) idx"
    by (simp add: sorting_def sort_key_id_if_sorted)
  show ?thesis
    using a b by (simp add: row_order_def)
qed

lemma sort_index_index: "index (sort_index l df) = sort (index df)"
  using sorting_sort[OF sorting_row_order[of l "index df"]] by (simp add: sort_index_def Let_def)

lemma sort_index_names: "map fst (columns (sort_index l df)) = map fst (columns df)"
  by (simp add: sort_index_def Let_def case_prod_unfold comp_def)

lemma sort_index_lengths:
  "\<forall>vs \<in> snd ` set (columns (sort_index l df)). length vs = length (index (sort_index l df))"
  by (auto simp: sort_index_def Let_def)

lemma map_fst_setitem:
  "map fst (setitem k v kvs) = (if k \<in> fst ` set kvs then map fst kvs else map fst kvs @ [k])"
  by (induction kvs) force+

lemma map_of_setitem: "map_of (setitem k v kvs) = (map_of kvs)(k \<mapsto> v)"
  by (induction kvs) (auto simp: fun_eq_iff)

lemma setitem_fresh: "k \<notin> fst ` set kvs \<Longrightarrow> setitem k v kvs = kvs @ [(k, v)]"
  by (induction kvs) auto

lemma length_reindex: "reindex s idx = Inr vs \<Longrightarrow> length (fst s) = length (snd s) \<Longrightarrow> length vs = length idx"
  by (auto simp: reindex_def split: if_splits)

lemma reindex_cell:
  assumes "reindex s idx = Inr vs" and "length (fst s) = length (snd s)" and "i < length idx"
  shows "(idx ! i \<notin> set (fst s) \<and> vs ! i = NaN) \<or> (idx ! i, vs ! i) \<in> set (zip (fst s) (snd s))"
proof (cases "fst s = idx")
  case True
  with assms have "vs = snd s" by (simp add: reindex_def)
  with True assms show ?thesis
    by (metis in_set_zip fst_conv snd_conv)
next
  case False
  with assms have d: "distinct (fst s)"
    and vs: "vs = map (\<lambda>d. case map_of (zip (fst s) (snd s)) d of None \<Rightarrow> NaN | Some v \<Rightarrow> v) idx"
    by (auto simp: reindex_def split: if_splits)
  show ?thesis
  proof (cases "map_of (zip (fst s) (snd s)) (idx ! i)")
    case None
    then have "idx ! i \<notin> set (map fst (zip (fst s) (snd s)))"
      by (simp add: map_of_eq_None_iff)
    then have "idx ! i \<notin> set (fst s)"
      using assms(2) by (metis map_fst_zip)
    with None vs assms(3) show ?thesis by simp
  next
    case (Some v)
    then have "(idx ! i, v) \<in> set (zip (fst s) (snd s))" by (rule map_of_SomeD)
    with Some vs assms(3) show ?thesis by simp
  qed
qed

section \<open>Facts about the fetcher\<close>

lemma api_call_sent: "snd (api_call self net params sent) = sent @ [outgoing self params]"
  by (simp add: api_call_def split: option.splits)

lemma api_call_fst:
  "fst (api_call self net params sent) =
     (case net (outgoing self params) of None \<Rightarrow> Inl TransportError | Some data \<Rightarrow> Inr data)"
  by (simp add: api_call_def split: option.splits)

lemma get_price_volume_sent:
  "snd (get_price_volume l self net symbol sent) = sent @ [outgoing self (price_volume_params symbol)]"
  by (simp add: get_price_volume_def api_call_def split: option.splits sum.splits)

lemma get_price_volume_fst:
  "fst (get_price_volume l self net symbol sent) = fst (get_price_volume l self net symbol [])"
  by (simp add: get_price_volume_def api_call_def split: option.splits sum.splits)

lemma get_indicator_sent:
  "snd (get_indicator l self net params key sent) = sent @ [outgoing self params]"
  by (simp add: get_indicator_def api_call_def split: option.splits sum.splits)

lemma get_indicator_fst:
  "fst (get_indicator l self net params key sent) = fst (get_indicator l self net params key [])"
  by (simp add: get_indicator_def api_call_def split: option.splits sum.splits)

lemma get_price_volume_sentD:
  "get_price_volume l self net symbol s = (r, s') \<Longrightarrow> s' = s @ [outgoing self (price_volume_params symbol)]"
  using get_price_volume_sent[of l self net symbol s] by simp

lemma get_rsi_sentD:
  "get_rsi l self net symbol s = (r, s') \<Longrightarrow> s' = s @ [outgoing self (rsi_params symbol)]"
  using get_indicator_sent[of l self net "rsi_params symbol" "''Technical Analysis: RSI''" s]
  by (simp add: get_rsi_def)

lemma get_macd_sentD:
  "get_macd l self net symbol s = (r, s') \<Longrightarrow> s' = s @ [outgoing self (macd_params symbol)]"
  using get_indicator_sent[of l self net "macd_params symbol" "''Technical Analysis: MACD''" s]
  by (simp add: get_macd_def)

lemma get_sma_sentD:
  "get_sma l self net symbol s = (r, s') \<Longrightarrow> s' = s @ [outgoing self (sma_params symbol)]"
  using get_indicator_sent[of l self net "sma_params symbol" "''Technical Analysis: SMA''" s]
  by (simp add: get_sma_def)

lemma get_stock_data_Inr:
  assumes "get_stock_data l self net sent = (Inr table, sent')"
  obtains symbol price price' rsi macd sma s1 s2 s3 where
    "config self ''symbol'' = Some symbol"
    "get_price_volume l self net symbol sent = (Inr price, s1)"
    "with_volatility price = Inr price'"
    "get_rsi l self net symbol s1 = (Inr rsi, s2)"
    "get_macd l self net symbol s2 = (Inr macd, s3)"
    "get_sma l self net symbol s3 = (Inr sma, sent')"
    "combine price' rsi macd sma = Inr table"
  using assms unfolding get_stock_data_def
  by (auto split: option.splits sum.splits prod.splits)

lemma get_stock_data_sent:
  assumes "config self ''symbol'' = Some symbol"
  shows "\<exists>n. snd (get_stock_data l self net sent) =
     sent @ take n [outgoing self (price_volume_params symbol), outgoing self (rsi_params symbol),
                    outgoing self (macd_params symbol), outgoing self (sma_params symbol)]"
proof -
  let ?pv = "outgoing self (price_volume_params symbol)"
  let ?r = "outgoing self (rsi_params symbol)"
  let ?m = "outgoing self (macd_params symbol)"
  let ?s = "outgoing self (sma_params symbol)"
  let ?all = "[?pv, ?r, ?m, ?s]"
  obtain r1 s1 where pv: "get_price_volume l self net symbol sent = (r1, s1)" by force
  then have s1: "s1 = sent @ take 1 ?all"
    by (auto dest!: get_price_volume_sentD)
  obtain r2 s2 where rsi: "get_rsi l self net symbol s1 = (r2, s2)" by force
  then have s2: "s2 = sent @ take 2 ?all"
    using s1 by (auto dest!: get_rsi_sentD)
  obtain r3 s3 where macd: "get_macd l self net symbol s2 = (r3, s3)" by force
  then have s3: "s3 = sent @ take 3 ?all"
    using s2 by (auto dest!: get_macd_sentD)
  obtain r4 s4 where sma: "get_sma l self net symbol s3 = (r4, s4)" by force
  then have s4: "s4 = sent @ take 4 ?all"
    using s3 by (auto dest!: get_sma_sentD)
  have "snd (get_stock_data l self net sent) \<in> {s1, s2, s3, s4}"
    using assms pv rsi macd sma unfolding get_stock_data_def
    by (auto split: sum.splits)
  then show ?thesis
    using s1 s2 s3 s4 by blast
qed

lemma get_stock_data_config:
  assumes "config f1 ''symbol'' = config f2 ''symbol''"
    and "api_key f1 = api_key f2" and "base_url f1 = base_url f2"
  shows "get_stock_data l f1 net sent = get_stock_data l f2 net sent"
proof -
  have o: "outgoing f1 = outgoing f2"
    using assms by (simp add: outgoing_def fun_eq_iff)
  have a: "api_call f1 = api_call f2"
    unfolding api_call_def fun_eq_iff o by simp
  have g: "get_price_volume l f1 = get_price_volume l f2" "get_indicator l f1 = get_indicator l f2"
    unfolding get_price_volume_def get_indicator_def fun_eq_iff a by simp_all
  show ?thesis
    unfolding get_stock_data_def get_rsi_def get_macd_def get_sma_def g assms(1) ..
qed

subsection \<open>Lengths\<close>

lemma length_ffill_from [simp]: "length (ffill_from p xs) = length xs"
  by (induction xs arbitrary: p) auto

lemma length_pct_change_with [simp]: "length (pct_change_with r xs) = length xs"
  by (cases "xs = []") (auto simp: pct_change_with_def Let_def)

lemma length_rolling_std_with [simp]: "length (rolling_std_with r w xs) = length xs"
  by (simp add: rolling_std_with_def roll_var_def prep_values_def)

lemma length_volatility_with [simp]: "length (volatility_with r xs) = length xs"
  by (simp add: volatility_with_def)

lemma length_pct_change [simp]: "length (pct_change xs) = length xs"
  by (simp add: pct_change_def)

lemma length_volatility [simp]: "length (volatility xs) = length xs"
  by (simp add: volatility_def)

subsection \<open>Windows\<close>

lemma observed_simps [simp]:
  "observed [] = []"
  "observed (None # win) = observed win"
  "observed (Some x # win) = x # observed win"
  "observed (win @ win') = observed win @ observed win'"
  by (simp_all add: observed_def)

lemma length_observed_le: "length (observed win) \<le> length win"
  by (induction win) (auto simp: observed_def split: option.splits)

lemma observed_eq: "observed win = map the (filter (\<lambda>v. v \<noteq> None) win)"
  by (induction win) (auto simp: observed_def split: option.splits)

lemma length_window_le: "length (window w xs i) \<le> Suc i"
  by (simp add: window_def)

lemma length_window_le': "length (window w xs i) \<le> w"
  by (simp add: window_def)

lemma window_0: "0 < w \<Longrightarrow> xs \<noteq> [] \<Longrightarrow> window w xs 0 = [xs ! 0]"
  by (cases xs) (simp_all add: window_def)

lemma window_Suc_grow:
  assumes "Suc i < length xs" and "Suc i < w"
  shows "window w xs (Suc i) = window w xs i @ [xs ! Suc i]"
  using assms by (simp add: window_def take_Suc_conv_app_nth)

lemma window_Suc_slide:
  assumes "Suc i < length xs" and "w \<le> Suc i" and "0 < w"
  shows "window w xs i = xs ! (Suc i - w) # tl (window w xs i)"
    and "window w xs (Suc i) = tl (window w xs i) @ [xs ! Suc i]"
proof -
  let ?k = "Suc i - w"
  have k: "?k < Suc i" "?k < length (take (Suc i) xs)"
    using assms by auto
  have "drop ?k (take (Suc i) xs) = take (Suc i) xs ! ?k # drop (Suc ?k) (take (Suc i) xs)"
    using k(2) by (rule Cons_nth_drop_Suc[symmetric])
  then have w: "window w xs i = xs ! ?k # drop (Suc ?k) (take (Suc i) xs)"
    using k(1) by (simp add: window_def)
  then show "window w xs i = xs ! ?k # tl (window w xs i)"
    by simp
  have "Suc (Suc i) - w = Suc ?k"
    using assms by simp
  then have "window w xs (Suc i) = drop (Suc ?k) (take (Suc i) xs @ [xs ! Suc i])"
    using assms(1) by (simp add: window_def take_Suc_conv_app_nth)
  also have "\<dots> = drop (Suc ?k) (take (Suc i) xs) @ [xs ! Suc i]"
    using k assms(1) by simp
  finally show "window w xs (Suc i) = tl (window w xs i) @ [xs ! Suc i]"
    using w by simp
qed

subsection \<open>The counter of the rolling variance\<close>

lemma nobs_add_var: "nobs (add_var r val st) = nobs st + int (length (observed [val]))"
  by (cases val) (simp_all add: add_var_def Let_def)

lemma nobs_remove_var: "nobs (remove_var r val st) = nobs st - int (length (observed [val]))"
  by (cases val) (simp_all add: remove_var_def Let_def)

lemma var_state_at_Suc:
  assumes "2 \<le> w" and "Suc i < length values"
  shows "var_state_at r w values (Suc i) =
     add_var r (values ! Suc i)
       (if Suc i < w then var_state_at r w values i
        else remove_var r (values ! (Suc i - w)) (var_state_at r w values i))"
proof (cases "Suc i < w")
  case True
  then have "window_start w (Suc i) = 0" "window_start w i = 0"
    by (simp_all add: window_start_def)
  with True assms show ?thesis
    by (simp add: value_at_def)

next
  case False
  then have s: "window_start w (Suc i) = Suc (Suc i - w)" "window_start w i = Suc i - w"
    using assms by (simp_all add: window_start_def)
  have "\<not> Suc i \<le> Suc (Suc i - w)"
    using assms False by simp
  with False assms s show ?thesis
    by (simp add: value_at_def)
qed

lemma var_state_at_0:
  assumes "0 < w" and "values \<noteq> []"
  shows "var_state_at r w values 0 =
     add_var r (values ! 0)
       \<lparr>nobs = 0, mean_x = Fin 0, ssqdm_x = Fin 0, compensation_add = Fin 0,
        compensation_remove = Fin 0, num_consecutive_same_value = 0, prev_value = values ! 0\<rparr>"
  using assms by (simp add: first_window_def window_start_def value_at_def)

declare var_state_at.simps [simp del]

lemma nobs_var_state_at:
  assumes "2 \<le> w" and "i < length values"
  shows "nobs (var_state_at r w values i) = int (length (observed (window w values i)))"
  using assms(2)
proof (induction i)
  case 0
  then show ?case
    using assms(1) by (simp add: var_state_at_0 window_0 nobs_add_var)
next
  case (Suc i)
  then have IH: "nobs (var_state_at r w values i) = int (length (observed (window w values i)))"
    by simp
  show ?case
  proof (cases "Suc i < w")
    case True
    then show ?thesis
      using Suc.prems assms(1) IH
      by (simp add: var_state_at_Suc window_Suc_grow nobs_add_var)
  next
    case False
    then have w: "w \<le> Suc i" "0 < w" using assms(1) by simp_all
    note sl = window_Suc_slide[OF Suc.prems w]
    have "int (length (observed (window w values i))) =
        int (length (observed [values ! (Suc i - w)])) + int (length (observed (tl (window w values i))))"
      by (subst sl(1)) (simp add: observed_def)
    then show ?thesis
      using Suc.prems assms(1) IH False
      by (simp add: var_state_at_Suc sl(2) nobs_add_var nobs_remove_var)
  qed
qed

lemma rolling_std_with_nth:
  assumes "i < length xs"
  shows "rolling_std_with r w xs ! i =
     zsqrt r (calc_var r w 1 (var_state_at r w (prep_values xs) i))"
  using assms by (simp add: rolling_std_with_def roll_var_def prep_values_def)

lemma rolling_std_with_NaN:
  assumes "2 \<le> w" and "i < length xs"
    and "length (observed (window w (prep_values xs) i)) < w"
  shows "rolling_std_with r w xs ! i = NaN"
proof -
  have "nobs (var_state_at r w (prep_values xs) i) < int w"
    using assms by (simp add: nobs_var_state_at prep_values_def)
  then show ?thesis
    using assms(2) by (simp add: rolling_std_with_nth calc_var_def zsqrt_def)
qed

lemma volatility_with_short:
  assumes "length xs < 20"
  shows "volatility_with r xs = replicate (length xs) NaN"
proof -
  have "rolling_std_with r 20 (pct_change_with r xs) ! i = NaN" if "i < length xs" for i
  proof (rule rolling_std_with_NaN)
    show "length (observed (window 20 (prep_values (pct_change_with r xs)) i)) < 20"
      using that assms length_window_le[of 20 "prep_values (pct_change_with r xs)" i]
        length_observed_le[of "window 20 (prep_values (pct_change_with r xs)) i"]
      by simp
  qed (use that in simp_all)
  then have "volatility_with r xs = map (\<lambda>i. NaN) [0..<length xs]"
    unfolding volatility_with_def by (intro nth_equalityI) simp_all
  then show ?thesis
    by (simp add: map_replicate_const)
qed

lemma volatility_short:
  "length xs < 20 \<Longrightarrow> volatility xs = replicate (length xs) NaN"
  by (simp add: volatility_def volatility_with_short)

subsection \<open>The percentage changes of finite closes\<close>

lemma ffill_from_Fin: "ffill_from p (map Fin cs) = map Fin cs"
  by (induction cs arbitrary: p) auto

lemma pct_change_with_nth:
  assumes "i < length cs"
  shows "pct_change_with r (map Fin cs) ! i =
     (if i = 0 then NaN else fsub r (truediv r (Fin (cs ! i)) (Fin (cs ! (i - 1)))) (Fin 1))"
proof -
  let ?data = "map Fin cs"
  have sh: "(NaN # butlast ?data) ! i = (if i = 0 then NaN else Fin (cs ! (i - 1)))"
    using assms by (cases i) (auto simp: nth_butlast)
  have "i < length (zip ?data (NaN # butlast ?data))"
    using assms by (cases cs) auto
  then have "pct_change_with r ?data ! i =
      fsub r (truediv r (?data ! i) ((NaN # butlast ?data) ! i)) (Fin 1)"
    by (simp add: pct_change_with_def ffill_from_Fin Let_def)
  then show ?thesis
    using assms sh by simp
qed

lemma fsub_not_Fin: "x \<in> {PInf, NInf, NaN} \<Longrightarrow> fsub r x (Fin b) \<in> {PInf, NInf, NaN}"
  by auto

lemma pct_change_with_undefined:
  assumes "i < length cs" and "pct cs i = None"
  shows "pct_change_with r (map Fin cs) ! i \<in> {PInf, NInf, NaN}"
  using assms by (auto simp: pct_change_with_nth pct_def split: if_splits)

lemma prep_pct_change_with_undefined:
  assumes "i < length cs" and "pct cs i = None"
  shows "prep_values (pct_change_with r (map Fin cs)) ! i = None"
  using pct_change_with_undefined[OF assms, of r] assms(1)
  by (auto simp: prep_values_def)

lemma prep_pct_change_exact_nth:
  assumes "i < length cs"
  shows "prep_values (pct_change_with exact (map Fin cs)) ! i = pct cs i"
proof (cases "i = 0 \<or> cs ! (i - 1) = 0")
  case True
  then have "pct cs i = None" by (auto simp: pct_def)
  then show ?thesis
    using prep_pct_change_with_undefined[OF assms] by simp
next
  case False
  then have "cs ! i / cs ! (i - 1) - 1 = (cs ! i - cs ! (i - 1)) / cs ! (i - 1)"
    by (simp add: field_simps)
  with False show ?thesis
    using assms by (simp add: prep_values_def pct_change_with_nth pct_def exact_def)
qed

lemma prep_pct_change_exact:
  "prep_values (pct_change_with exact (map Fin cs)) = map (pct cs) [0..<length cs]"
proof (rule nth_equalityI)
  show "length (prep_values (pct_change_with exact (map Fin cs))) = length (map (pct cs) [0..<length cs])"
    by (simp add: prep_values_def)
next
  fix i assume "i < length (prep_values (pct_change_with exact (map Fin cs)))"
  then have "i < length cs" by (simp add: prep_values_def)
  then show "prep_values (pct_change_with exact (map Fin cs)) ! i = map (pct cs) [0..<length cs] ! i"
    by (simp add: prep_pct_change_exact_nth)
qed

lemma window_nth:
  assumes "i < length xs" and "j \<in> set [Suc i - w..<Suc i]"
  shows "xs ! j \<in> set (window w xs i)"
proof -
  from assms have "j < Suc i" "Suc i - w \<le> j" by auto
  then have "take (Suc i) xs ! j \<in> set (drop (Suc i - w) (take (Suc i) xs))"
    using assms(1) by (auto simp: set_conv_nth intro!: exI[of _ "j - (Suc i - w)"])
  then show ?thesis
    using \<open>j < Suc i\<close> by (simp add: window_def)
qed

lemma window_map_upt:
  assumes "i < n"
  shows "window w (map g [0..<n]) i = map g [Suc i - w..<Suc i]"
proof -
  have "take (Suc i) [0..<n] = [0..<Suc i]"
    using assms by (simp add: take_upt del: upt_Suc)
  then show ?thesis
    by (simp add: window_def drop_map take_map drop_upt del: upt_Suc)
qed

lemma filter_full:
  assumes "length xs \<le> n" and "n \<le> length (filter P xs)"
  shows "filter P xs = xs" and "length xs = n"
proof -
  have le: "length (filter P xs) \<le> length xs" by (rule length_filter_le)
  show "filter P xs = xs"
  proof (rule ccontr)
    assume "filter P xs \<noteq> xs"
    then obtain x where "x \<in> set xs" "\<not> P x"
      by (auto simp: filter_id_conv)
    then have "length (filter P xs) < length xs"
      by (rule length_filter_less)
    with assms show False by linarith
  qed
  show "length xs = n"
    using assms le by linarith
qed

subsection \<open>Welford's recurrence in exact arithmetic\<close>

lemma sum_sq_dev:
  "(\<Sum>x\<leftarrow>xs. (x - c)\<^sup>2) = (\<Sum>x\<leftarrow>xs. x\<^sup>2) - 2 * c * sum_list xs + real (length xs) * c\<^sup>2"
  by (induction xs) (simp_all add: power2_diff algebra_simps)

lemma ssq_expand:
  assumes "xs \<noteq> []"
  shows "ssq xs = (\<Sum>x\<leftarrow>xs. x\<^sup>2) - (sum_list xs)\<^sup>2 / real (length xs)"
proof -
  have n: "real (length xs) \<noteq> 0" using assms by simp
  show ?thesis
    unfolding ssq_def sum_sq_dev using n by (simp add: field_simps power2_eq_square)
qed

lemma ssq_Nil [simp]: "ssq [] = 0"
  by (simp add: ssq_def)

lemma ssq_nonneg: "0 \<le> ssq xs"
  unfolding ssq_def by (rule sum_list_nonneg) auto

lemma ssq_single [simp]: "ssq [v] = 0"
  by (simp add: ssq_def)

lemma welford_identity:
  fixes A B n v :: real
  assumes "0 < n"
  shows "(B + v\<^sup>2) - (A + v)\<^sup>2 / (n + 1) =
     (B - A\<^sup>2 / n) + (v - A / n) * (v - (A + v) / (n + 1))"
proof -
  have n: "n \<noteq> 0" "n + 1 \<noteq> 0" using assms by simp_all
  have "(v - A / n) * (v - (A + v) / (n + 1)) = (n * v - A)\<^sup>2 / (n * (n + 1))"
    using n by (simp add: field_simps power2_eq_square)
  moreover have "v\<^sup>2 - (A + v)\<^sup>2 / (n + 1) + A\<^sup>2 / n = (n * v - A)\<^sup>2 / (n * (n + 1))"
    using n by (simp add: field_simps power2_eq_square)
  ultimately show ?thesis by simp
qed

lemma ssq_add:
  assumes "xs \<noteq> []"
  shows "ssq (xs @ [v]) =
     ssq xs + (v - sum_list xs / real (length xs)) * (v - (sum_list xs + v) / (real (length xs) + 1))"
proof -
  have n: "0 < real (length xs)" using assms by simp
  have "ssq (xs @ [v]) = ((\<Sum>x\<leftarrow>xs. x\<^sup>2) + v\<^sup>2) - (sum_list xs + v)\<^sup>2 / (real (length xs) + 1)"
    by (simp add: ssq_expand add.commute)
  also have "\<dots> = ((\<Sum>x\<leftarrow>xs. x\<^sup>2) - (sum_list xs)\<^sup>2 / real (length xs)) +
      (v - sum_list xs / real (length xs)) * (v - (sum_list xs + v) / (real (length xs) + 1))"
    using n by (rule welford_identity)
  finally show ?thesis
    using assms by (simp add: ssq_expand)
qed

lemma ssq_Cons:
  assumes "xs \<noteq> []"
  shows "ssq (v # xs) =
     ssq xs + (v - sum_list xs / real (length xs)) * (v - (sum_list xs + v) / (real (length xs) + 1))"
proof -
  have "ssq (v # xs) = (v\<^sup>2 + (\<Sum>x\<leftarrow>xs. x\<^sup>2)) - (v + sum_list xs)\<^sup>2 / (real (length xs) + 1)"
    by (simp add: ssq_expand add.commute)
  also have "\<dots> = ssq (xs @ [v])"
    by (simp add: ssq_expand add.commute)
  finally show ?thesis
    using ssq_add[OF assms] by simp
qed

lemma ssq_all_equal:
  assumes "\<forall>x \<in> set xs. x = c"
  shows "ssq xs = 0"
proof (cases "xs = []")
  case False
  from assms have xs: "xs = replicate (length xs) c"
    by (simp add: replicate_length_same)
  have "sum_list xs = real (length xs) * c"
    by (subst xs) (simp add: sum_list_replicate)
  then have "sum_list xs / real (length xs) = c"
    using False by simp
  then have "ssq xs = sum_list (map (\<lambda>x. (x - c)\<^sup>2) xs)"
    by (simp add: ssq_def)
  also have "map (\<lambda>x. (x - c)\<^sup>2) xs = map (\<lambda>x. 0) xs"
    using assms by (intro map_cong) simp_all
  also have "sum_list (map (\<lambda>x. 0::real) xs) = 0"
    by simp
  finally show ?thesis .
qed simp

lemma mean_step:
  fixes A n v :: real
  assumes "0 < n"
  shows "A / n + (v - A / n) / (n + 1) = (A + v) / (n + 1)"
proof -
  have n: "n \<noteq> 0" "n + 1 \<noteq> 0" using assms by simp_all
  have "A / n + (v - A / n) / (n + 1) = (A / n * (n + 1) + (v - A / n)) / (n + 1)"
    using n by (simp add: add_divide_distrib)
  also have "A / n * (n + 1) + (v - A / n) = A + v"
    using n by (simp add: distrib_left)
  finally show ?thesis .
qed

lemma mean_unstep:
  fixes A n v :: real
  assumes "0 < n"
  shows "(v + A) / (n + 1) - (v - (v + A) / (n + 1)) / n = A / n"
proof -
  define D where "D = (v + A) / (n + 1)"
  have n: "n \<noteq> 0" "n + 1 \<noteq> 0" using assms by simp_all
  have D: "(n + 1) * D = v + A"
    using n by (simp add: D_def)
  have "D - (v - D) / n = (n * D - (v - D)) / n"
    using n by (simp add: diff_divide_distrib)
  also have "n * D - (v - D) = (n + 1) * D - v"
    by (simp add: algebra_simps)
  also have "\<dots> = A"
    by (simp add: D)
  finally show ?thesis
    by (simp add: D_def)
qed

lemma tracks_add:
  assumes "tracks st seen obs"
  shows "tracks (add_var exact (Some v) st) (seen @ [v]) (obs @ [v])"
proof -
  let ?M = "if obs = [] then 0 else sum_list obs / real (length obs)"
  let ?n = "real (length obs)"
  let ?same = "num_consecutive_same_value st"
  let ?same' = "if prev_value st = Some v then ?same + 1 else 1"
  let ?M' = "?M + (v - ?M) / (?n + 1)"
  from assms have t: "nobs st = int (length obs)" "compensation_add st = Fin 0"
    "compensation_remove st = Fin 0" "mean_x st = Fin ?M" "ssqdm_x st = Fin (ssq obs)"
    "\<exists>ys. seen = ys @ obs" "seen = [] \<longrightarrow> ?same = 0"
    "seen \<noteq> [] \<longrightarrow> prev_value st = Some (last seen)" "0 \<le> ?same" "?same \<le> int (length seen)"
    "\<forall>x \<in> set (drop (length seen - nat ?same) seen). x = last seen"
    by (simp_all add: tracks_def)
  have n0: "nobs st + 1 \<noteq> 0" using t(1) by simp
  have rn: "real_of_int (nobs st + 1) = ?n + 1" using t(1) by simp
  have st': "add_var exact (Some v) st =
      st\<lparr>nobs := nobs st + 1, mean_x := Fin ?M', ssqdm_x := Fin (ssq obs + (v - ?M) * (v - ?M')),
         compensation_add := Fin 0, num_consecutive_same_value := ?same', prev_value := Some v\<rparr>"
    by (simp add: add_var_def Let_def t(1,2,4,5) exact_def)
  have mean: "?M' = sum_list (obs @ [v]) / real (length (obs @ [v]))"
  proof (cases "obs = []")
    case False
    then have "0 < ?n" by simp
    from mean_step[OF this, of "sum_list obs" v] show ?thesis
      using False by (simp add: add.commute)
  qed simp
  have sq: "ssq obs + (v - ?M) * (v - ?M') = ssq (obs @ [v])"
  proof (cases "obs = []")
    case False
    then have "?M' = (sum_list obs + v) / (?n + 1)"
      using mean by (simp add: add.commute)
    then show ?thesis using False by (simp add: ssq_add)
  qed simp
  have same: "0 \<le> ?same'" "?same' \<le> int (length (seen @ [v]))"
    using t(9,10) by simp_all
  have run: "\<forall>x \<in> set (drop (length (seen @ [v]) - nat ?same') (seen @ [v])). x = last (seen @ [v])"
  proof (cases "prev_value st = Some v \<and> seen \<noteq> []")
    case True
    then have l: "last seen = v" using t(8) by simp
    have "length (seen @ [v]) - nat (?same + 1) = length seen - nat ?same"
      using t(9) by (simp add: nat_add_distrib)
    then have "drop (length (seen @ [v]) - nat ?same') (seen @ [v]) =
        drop (length seen - nat ?same) seen @ [v]"
      using True by simp
    then show ?thesis using t(11) l by auto
  next
    case False
    then have "?same' = 1" using t(7) by auto
    then show ?thesis by simp
  qed
  show ?thesis
    unfolding tracks_def st' using t(1,3,6) mean sq same run
    by (simp del: last_snoc drop_append length_append add: nth_append) auto
qed

lemma tracks_remove:
  assumes "tracks st seen (v # obs)"
  shows "tracks (remove_var exact (Some v) st) seen obs"
proof -
  let ?n = "real (length obs)"
  let ?M = "(v + sum_list obs) / (?n + 1)"
  let ?M' = "?M - (v - ?M) / ?n"
  from assms have t: "nobs st = int (length obs) + 1" "compensation_add st = Fin 0"
    "compensation_remove st = Fin 0" "mean_x st = Fin ?M" "ssqdm_x st = Fin (ssq (v # obs))"
    "\<exists>ys. seen = ys @ v # obs" "seen = [] \<longrightarrow> num_consecutive_same_value st = 0"
    "seen \<noteq> [] \<longrightarrow> prev_value st = Some (last seen)" "0 \<le> num_consecutive_same_value st"
    "num_consecutive_same_value st \<le> int (length seen)"
    "\<forall>x \<in> set (drop (length seen - nat (num_consecutive_same_value st)) seen). x = last seen"
    by (simp_all add: tracks_def add.commute)
  from t(6) obtain ys where "seen = (ys @ [v]) @ obs" by auto
  then have suffix: "\<exists>ys. seen = ys @ obs" by blast
  show ?thesis
  proof (cases "obs = []")
    case True
    then have "remove_var exact (Some v) st = st\<lparr>nobs := 0, mean_x := Fin 0, ssqdm_x := Fin 0\<rparr>"
      by (simp add: remove_var_def Let_def t(1))
    then show ?thesis
      unfolding tracks_def using True t(2,3,7-11) suffix by simp
  next
    case False
    then have n: "0 < ?n" by simp
    have st': "remove_var exact (Some v) st =
        st\<lparr>nobs := int (length obs), mean_x := Fin ?M',
           ssqdm_x := Fin (ssq (v # obs) - (v - ?M) * (v - ?M')), compensation_remove := Fin 0\<rparr>"
      using False by (simp add: remove_var_def Let_def t(1,3,4,5) exact_def)
    have mean: "?M' = sum_list obs / ?n"
      using mean_unstep[OF n, of v "sum_list obs"] .
    have "ssq (v # obs) = ssq obs + (v - sum_list obs / ?n) * (v - (sum_list obs + v) / (?n + 1))"
      using False by (rule ssq_Cons)
    moreover have "(sum_list obs + v) / (?n + 1) = ?M"
      by (simp add: add.commute)
    ultimately have "ssq (v # obs) = ssq obs + (v - ?M') * (v - ?M)"
      by (simp only: mean)
    then have sq: "ssq (v # obs) - (v - ?M) * (v - sum_list obs / ?n) = ssq obs"
      by (simp add: mean mult.commute)
    show ?thesis
      unfolding tracks_def st' mean sq using False t(2,7-11) suffix by simp
  qed
qed

lemma tracks_add_opt:
  assumes "tracks st seen obs"
  shows "tracks (add_var exact val st) (seen @ observed [val]) (obs @ observed [val])"
proof (cases val)
  case None
  then show ?thesis using assms by (simp add: add_var_def)
next
  case (Some v)
  then show ?thesis using tracks_add[OF assms] by simp
qed

lemma tracks_remove_opt:
  assumes "tracks st seen (observed [val] @ obs)"
  shows "tracks (remove_var exact val st) seen obs"
proof (cases val)
  case None
  then show ?thesis using assms by (simp add: remove_var_def)
next
  case (Some v)
  then show ?thesis using tracks_remove[of st seen v obs] assms by simp
qed

lemma tracks_var_state_at:
  assumes "2 \<le> w" and "i < length values"
  shows "tracks (var_state_at exact w values i)
     (observed (take (Suc i) values)) (observed (window w values i))"
  using assms(2)
proof (induction i)
  case 0
  then have v: "values \<noteq> []" by auto
  have init: "tracks \<lparr>nobs = 0, mean_x = Fin 0, ssqdm_x = Fin 0, compensation_add = Fin 0,
        compensation_remove = Fin 0, num_consecutive_same_value = 0, prev_value = values ! 0\<rparr> [] []"
    by (simp add: tracks_def)
  have "take (Suc 0) values = [values ! 0]"
    using v by (cases "values") simp_all
  then show ?case
    using tracks_add_opt[OF init, of "values ! 0"] assms(1) v
    by (simp add: var_state_at_0 window_0)
next
  case (Suc i)
  then have IH: "tracks (var_state_at exact w values i)
     (observed (take (Suc i) values)) (observed (window w values i))"
    by simp
  have seen: "observed (take (Suc (Suc i)) values) =
      observed (take (Suc i) values) @ observed [values ! Suc i]"
    using Suc.prems by (simp add: take_Suc_conv_app_nth[of "Suc i"])
  show ?case
  proof (cases "Suc i < w")
    case True
    then show ?thesis
      using Suc.prems assms(1) tracks_add_opt[OF IH, of "values ! Suc i"]
      by (simp add: var_state_at_Suc window_Suc_grow seen)
  next
    case False
    then have w: "w \<le> Suc i" "0 < w" using assms(1) by simp_all
    note sl = window_Suc_slide[OF Suc.prems w]
    have "observed (window w values i) =
        observed [values ! (Suc i - w)] @ observed (tl (window w values i))"
      by (subst sl(1)) (simp add: observed_def)
    with IH have "tracks (remove_var exact (values ! (Suc i - w)) (var_state_at exact w values i))
        (observed (take (Suc i) values)) (observed (tl (window w values i)))"
      by (intro tracks_remove_opt) simp
    from tracks_add_opt[OF this, of "values ! Suc i"] show ?thesis
      using Suc.prems assms(1) False
      by (simp add: var_state_at_Suc sl(2) seen)
  qed
qed

subsection \<open>Overflow of the rounding\<close>

lemma floor_le_half_even: "\<lfloor>q\<rfloor> \<le> half_even q"
  by (simp add: half_even_def Let_def)

lemma round64_overflow:
  assumes "2 ^ 1024 \<le> x"
  shows "round64 x = PInf"
proof -
  define k where "k = \<lfloor>log 2 x\<rfloor>"
  define ulp :: real where "ulp = 2 powr (of_int k - 52)"
  define y where "y = of_int (half_even (x / ulp)) * ulp"
  have x: "0 < x" using assms by (smt (verit) zero_less_power)
  have "(2::real) powr 1024 \<le> x"
    using assms by simp
  then have "1024 \<le> log 2 x"
    using x by (simp add: le_log_iff)
  then have k: "1024 \<le> k"
    unfolding k_def by (simp add: le_floor_iff)
  then have e: "max k (- 1022) = k" by simp
  have "of_int k \<le> log 2 x"
    unfolding k_def by simp
  then have kx: "2 powr (of_int k) \<le> x"
    using x by (simp add: le_log_iff)
  have u: "0 < ulp" by (simp add: ulp_def)
  have ulp_eq: "ulp = 2 powr (of_int k) / 2 ^ 52"
    unfolding ulp_def by (simp add: powr_diff)
  then have pk: "2 ^ 52 * ulp = 2 powr (of_int k)" by simp
  then have "2 ^ 52 * ulp \<le> x" using kx by simp
  then have "(2::real) ^ 52 \<le> x / ulp"
    using u by (simp add: pos_le_divide_eq)
  then have "(2::int) ^ 52 \<le> \<lfloor>x / ulp\<rfloor>"
    by (simp add: le_floor_iff)
  then have "(2::int) ^ 52 \<le> half_even (x / ulp)"
    using floor_le_half_even[of "x / ulp"] by linarith
  then have "(2::real) ^ 52 \<le> of_int (half_even (x / ulp))"
    by (metis of_int_le_iff of_int_numeral of_int_power)
  then have "2 ^ 52 * ulp \<le> y"
    unfolding y_def using u by (simp add: mult_right_mono)
  moreover note pk
  moreover have "(2::real) powr 1024 \<le> 2 powr (of_int k)"
    using k by (intro powr_mono) simp_all
  ultimately have "2 ^ 1024 \<le> y" by simp
  then have "2 ^ 1024 \<le> \<bar>y\<bar>" by linarith
  then have big: "(2::real) ^ 1024 \<le> \<bar>of_int (half_even (x / 2 powr (of_int k - 52))) * 2 powr (of_int k - 52)\<bar>"
    unfolding y_def ulp_def .
  have e': "max \<lfloor>log 2 \<bar>x\<bar>\<rfloor> (- 1022) = k"
    using e x unfolding k_def by simp
  have "x \<noteq> 0" using x by simp
  then show ?thesis
    unfolding round64_def Let_def e' using big x by (simp only: if_True if_False)
qed

subsection \<open>The value of a full window in exact arithmetic\<close>

lemma sample_std_ssq: "sample_std xs = sqrt (ssq xs / (real (length xs) - 1))"
  by (simp add: sample_std_def ssq_def)

lemma calc_var_tracks:
  assumes t: "tracks st seen obs" and two: "2 \<le> length obs" and minp: "minp \<le> length obs"
  shows "calc_var exact minp 1 st = Fin (ssq obs / (real (length obs) - 1))"
proof -
  from t have n: "nobs st = int (length obs)"
    and sq: "ssqdm_x st = Fin (ssq obs)"
    and ex: "\<exists>ys. seen = ys @ obs"
    and run: "\<forall>x \<in> set (drop (length seen - nat (num_consecutive_same_value st)) seen). x = last seen"
    unfolding tracks_def by blast+
  have enough: "int minp \<le> nobs st \<and> int 1 < nobs st"
    using n two minp by simp
  have not1: "nobs st \<noteq> 1" using n two by simp
  show ?thesis
  proof (cases "nobs st \<le> num_consecutive_same_value st")
    case True
    from ex obtain ys where seen: "seen = ys @ obs" ..
    have "length seen - nat (num_consecutive_same_value st) \<le> length ys"
      using True n seen by simp
    then have "drop (length seen - nat (num_consecutive_same_value st)) seen
        = drop (length seen - nat (num_consecutive_same_value st)) ys @ obs"
      unfolding seen by simp
    then have "\<forall>x \<in> set obs. x = last seen"
      using run by simp
    then have "ssq obs = 0" by (rule ssq_all_equal)
    then show ?thesis
      using True enough unfolding calc_var_def by simp
  next
    case False
    have "real_of_int (nobs st - int 1) = real (length obs) - 1"
      using n by simp
    moreover have "real (length obs) - 1 \<noteq> 0" using two by simp
    ultimately have "truediv exact (ssqdm_x st) (Fin (of_int (nobs st - int 1)))
        = Fin (ssq obs / (real (length obs) - 1))"
      unfolding sq by (simp add: exact_def)
    then show ?thesis
      using False enough not1 unfolding calc_var_def by simp
  qed
qed

lemma volatility_with_exact_nth:
  assumes i: "i < length cs"
    and full: "20 \<le> length (filter (\<lambda>j. pct cs j \<noteq> None) [Suc i - 20..<Suc i])"
  shows "volatility_with exact (map Fin cs) ! i
     = Fin (sample_std (map (\<lambda>j. the (pct cs j)) [i - 19..<Suc i]))"
proof -
  let ?J = "[Suc i - 20..<Suc i]"
  let ?vs = "prep_values (pct_change_with exact (map Fin cs))"
  let ?obs = "map (\<lambda>j. the (pct cs j)) ?J"
  have "length ?J \<le> 20" by simp
  from filter_full[OF this full]
  have all: "filter (\<lambda>j. pct cs j \<noteq> None) ?J = ?J" and len: "length ?J = 20" .
  from len have i19: "19 \<le> i" and J: "Suc i - 20 = i - 19" by simp_all
  have vs: "?vs = map (pct cs) [0..<length cs]" by (rule prep_pct_change_exact)
  have win: "window 20 ?vs i = map (pct cs) ?J"
    unfolding vs using i by (rule window_map_upt)
  have "observed (window 20 ?vs i) = map the (filter (\<lambda>v. v \<noteq> None) (map (pct cs) ?J))"
    unfolding win by (rule observed_eq)
  also have "\<dots> = map the (map (pct cs) (filter (\<lambda>j. pct cs j \<noteq> None) ?J))"
    by (simp add: filter_map comp_def)
  also have "\<dots> = ?obs" unfolding all by simp
  finally have obs: "observed (window 20 ?vs i) = ?obs" .
  have lobs: "length ?obs = 20" using len by simp
  have iv: "i < length ?vs" unfolding vs using i by simp
  have t: "tracks (var_state_at exact 20 ?vs i) (observed (take (Suc i) ?vs)) ?obs"
    using tracks_var_state_at[of 20 i ?vs, OF _ iv] unfolding obs by simp
  have two: "2 \<le> length ?obs" and twenty: "20 \<le> length ?obs"
    using len by simp_all
  have "calc_var exact 20 1 (var_state_at exact 20 ?vs i)
      = Fin (ssq ?obs / (real (length ?obs) - 1))"
    using t two twenty by (rule calc_var_tracks)
  moreover have "0 \<le> ssq ?obs / (real (length ?obs) - 1)"
    unfolding lobs using ssq_nonneg[of ?obs] by simp
  ultimately have "zsqrt exact (calc_var exact 20 1 (var_state_at exact 20 ?vs i))
      = Fin (sample_std ?obs)"
    unfolding sample_std_ssq by (simp add: zsqrt_def exact_def)
  moreover have "i < length (pct_change_with exact (map Fin cs))"
    using i by (simp add: length_pct_change_with)
  ultimately show ?thesis
    unfolding volatility_with_def J by (simp add: rolling_std_with_nth)
qed

subsection \<open>Windows that hold an undefined change\<close>

lemma observed_None:
  assumes "None \<in> set win"
  shows "length (observed win) < length win"
proof -
  have "\<not> (None::real option) \<noteq> None" by simp
  with assms have "length (filter (\<lambda>v. v \<noteq> None) win) < length win"
    by (rule length_filter_less)
  then show ?thesis by (simp add: observed_eq)
qed

lemma rolling_std_with_None:
  assumes "2 \<le> w" and "j < length xs" and "i \<le> j" and "j < i + w"
    and "prep_values xs ! i = None"
  shows "rolling_std_with r w xs ! j = NaN"
proof -
  let ?vs = "prep_values xs"
  have lv: "length ?vs = length xs" by (simp add: prep_values_def)
  have "i \<in> set [Suc j - w..<Suc j]" using assms(3,4) by auto
  with assms(2) lv have "?vs ! i \<in> set (window w ?vs j)"
    by (intro window_nth) simp_all
  then have "None \<in> set (window w ?vs j)" using assms(5) by simp
  then have "length (observed (window w ?vs j)) < length (window w ?vs j)"
    by (rule observed_None)
  then have "length (observed (window w ?vs j)) < w"
    using length_window_le'[of w ?vs j] by linarith
  with assms(1,2) show ?thesis by (rule rolling_std_with_NaN)
qed

lemma length_filter_mono:
  assumes "\<forall>x \<in> set xs. P x \<longrightarrow> Q x"
  shows "length (filter P xs) \<le> length (filter Q xs)"
  using assms by (induction xs) auto

lemma observed_changes_le:
  assumes "i < length cs"
  shows "length (observed (window 20 (prep_values (pct_change_with r (map Fin cs))) i))
     \<le> length (filter (\<lambda>j. pct cs j \<noteq> None) [Suc i - 20..<Suc i])"
proof -
  let ?vs = "prep_values (pct_change_with r (map Fin cs))"
  let ?J = "[Suc i - 20..<Suc i]"
  have lv: "length ?vs = length cs" by (simp add: prep_values_def)
  have "?vs = map (\<lambda>j. ?vs ! j) [0..<length cs]"
    unfolding lv[symmetric] by (simp add: map_nth)
  then have "window 20 ?vs i = window 20 (map (\<lambda>j. ?vs ! j) [0..<length cs]) i"
    by simp
  also have "\<dots> = map (\<lambda>j. ?vs ! j) ?J"
    using assms by (rule window_map_upt)
  finally have win: "window 20 ?vs i = map (\<lambda>j. ?vs ! j) ?J" .
  have "length (observed (window 20 ?vs i)) = length (filter (\<lambda>j. ?vs ! j \<noteq> None) ?J)"
    unfolding win observed_eq by (simp add: filter_map comp_def)
  also have "\<dots> \<le> length (filter (\<lambda>j. pct cs j \<noteq> None) ?J)"
  proof (rule length_filter_mono, intro ballI impI)
    fix j assume j: "j \<in> set ?J" and d: "?vs ! j \<noteq> None"
    from j have "j \<le> i" by auto
    then have "j < length cs" using assms by linarith
    then have "pct cs j = None \<Longrightarrow> ?vs ! j = None"
      by (rule prep_pct_change_with_undefined)
    with d show "pct cs j \<noteq> None" by (cases "pct cs j") simp_all
  qed
  finally show ?thesis .
qed

lemma volatility_with_undefined:
  assumes "i < length cs"
    and "length (filter (\<lambda>j. pct cs j \<noteq> None) [Suc i - 20..<Suc i]) < 20"
  shows "volatility_with r (map Fin cs) ! i = NaN"
proof -
  have "length (observed (window 20 (prep_values (pct_change_with r (map Fin cs))) i)) < 20"
    using observed_changes_le[OF assms(1), of r] assms(2) by linarith
  with assms(1) show ?thesis
    unfolding volatility_with_def by (intro rolling_std_with_NaN) simp_all
qed

lemma pct_defined:
  assumes "0 < j" and "j \<le> length cs" and "0 \<notin> set cs"
  shows "pct cs j \<noteq> None"
proof -
  have "cs ! (j - 1) \<in> set cs" using assms(1,2) by (intro nth_mem) simp
  with assms(3) have "cs ! (j - 1) \<noteq> 0" by metis
  with assms(1) show ?thesis by (simp add: pct_def)
qed

subsection \<open>The two example series\<close>

lemma pct_alternating:
  assumes "0 < j" and "j < 21"
  shows "pct ex_closes_alternating j = Some (if even j then - 1 / 2 else 1)"
proof -
  have "j - 1 < 21" "even (j - 1) \<longleftrightarrow> odd j"
    using assms by simp_all
  then show ?thesis
    using assms unfolding pct_def ex_closes_alternating_def
    by (simp del: upt_Suc)
qed

lemma changes_alternating:
  "map (\<lambda>j. the (pct ex_closes_alternating j)) [20 - 19..<Suc 20]
     = map (\<lambda>j. if even j then - 1 / 2 else 1) [1..<21]"
  by (rule map_cong) (simp_all add: pct_alternating del: upt_Suc)

lemma sample_std_alternating:
  "sample_std (map (\<lambda>j. if even j then - 1 / 2 else 1) [1..<21]) = sqrt (45 / 76)"
  by (simp add: sample_std_def upt_rec power2_eq_square)

lemma pct_change_overflow:
  "pct_change (map Fin ex_closes_overflow) ! 1 = PInf"
proof -
  have "(2::real) ^ 1024 \<le> 2 ^ 520 / (1 / 2 ^ 520)" by simp
  then have "round64 (2 ^ 520 / (1 / 2 ^ 520)) = PInf"
    by (rule round64_overflow)
  then show ?thesis
    unfolding pct_change_def ex_closes_overflow_def
    using pct_change_with_nth[of 1 "1 / 2 ^ 520 # 2 ^ 520 # replicate 20 1" round64]
    by simp
qed

lemma changes_overflow_defined:
  "filter (\<lambda>j. pct ex_closes_overflow j \<noteq> None) [Suc 20 - 20..<Suc 20] = [Suc 20 - 20..<Suc 20]"
proof -
  have "0 \<notin> set ex_closes_overflow"
    by (simp add: ex_closes_overflow_def)
  moreover have "length ex_closes_overflow = 22"
    by (simp add: ex_closes_overflow_def)
  ultimately have "\<forall>j \<in> set [Suc 20 - 20..<Suc 20]. pct ex_closes_overflow j \<noteq> None"
    by (intro ballI pct_defined) (simp_all del: upt_Suc)
  then show ?thesis
    by (simp only: filter_id_conv)
qed

subsection \<open>The example run\<close>

lemmas ex_defs = ex_lib_def ex_config_def ex_prices_def ex_net_def ex_answers_def

lemmas run_defs = main_def init_def get_stock_data_def get_price_volume_def get_rsi_def get_macd_def
  get_sma_def get_indicator_def api_call_def outgoing_def price_volume_params_def rsi_params_def
  macd_params_def sma_params_def indexed_frame_def from_dict_def field_names_def row_labels_def
  cell_def first_seen_def sort_index_def row_order_def sorting_def datetime_index_def
  set_columns_def with_volatility_def getitem_def
  setitem_series_def reindex_def combine_def assign_def empty_def DataFrame_def

lemma ex_run:
  "main ex_lib (Some ex_config) (Some ''demo'') (ex_net ex_answers) = (Inr ex_table, ex_requests)"
  by (simp add: ex_defs run_defs ex_table_def ex_requests_def Let_def upt_rec volatility_short)

subsection \<open>What a successful getter returns\<close>

lemma datetime_index_Inr:
  "datetime_index l labels = Inr dates \<Longrightarrow> length dates = length labels"
  by (auto simp: datetime_index_def split: if_splits option.splits)

lemma indexed_frame_Table_Inr:
  assumes "indexed_frame l (Table data) = Inr df"
  obtains dates where "datetime_index l (row_labels data) = Inr dates"
    and "length dates = length (row_labels data)"
    and "index df = map (\<lambda>k. dates ! k) (row_order l dates)"
    and "columns df =
      map (\<lambda>c. (c, map (\<lambda>k. the (cell l data c (row_labels data ! k))) (row_order l dates)))
        (field_names data)"
    and "index df = sort dates"
    and "map fst (columns df) = field_names data"
    and "\<forall>vs \<in> snd ` set (columns df). length vs = length (index df)"
proof -
  from assms obtain df0 dates where
    d0: "from_dict l data = Inr df0"
    and dates: "datetime_index l (index df0) = Inr dates"
    and df: "df = sort_index l \<lparr>index = dates, columns = columns df0\<rparr>"
    by (auto simp: indexed_frame_def split: sum.splits)
  note f = from_dict_Inr[OF d0]
  note s = sorting_perm[OF sorting_row_order[of l dates]]
  have d: "datetime_index l (row_labels data) = Inr dates"
    using dates by (simp add: f(1))
  have len: "length dates = length (row_labels data)"
    using d by (rule datetime_index_Inr)
  have i: "index df = map (\<lambda>k. dates ! k) (row_order l dates)"
    by (simp add: df sort_index_def Let_def)
  have "map (\<lambda>k. map (\<lambda>d. the (cell l data c d)) (row_labels data) ! k) (row_order l dates) =
      map (\<lambda>k. the (cell l data c (row_labels data ! k))) (row_order l dates)" for c
    using s(4) len by (intro map_cong) auto
  then have c: "columns df =
      map (\<lambda>c. (c, map (\<lambda>k. the (cell l data c (row_labels data ! k))) (row_order l dates)))
        (field_names data)"
    by (simp add: df sort_index_def Let_def f(4) comp_def)
  have "index df = sort dates"
    by (simp add: df sort_index_index)
  moreover have "map fst (columns df) = field_names data"
    by (simp add: df sort_index_names f(2))
  moreover have "\<forall>vs \<in> snd ` set (columns df). length vs = length (index df)"
    unfolding df by (rule sort_index_lengths)
  ultimately show thesis
    using that d len i c by blast
qed

lemma indexed_frame_Nil: "indexed_frame l (Table []) = Inr DataFrame"
  by (simp add: indexed_frame_def from_dict_Nil datetime_index_def sort_index_def row_order_def
      DataFrame_def)

lemma indexed_frame_Inr:
  assumes "indexed_frame l v = Inr df"
  shows "sorted (index df)"
    and "\<forall>vs \<in> snd ` set (columns df). length vs = length (index df)"
    and "distinct (map fst (columns df))"
    and "index df = [] \<longleftrightarrow> columns df = []"
proof -
  from assms obtain data where v: "v = Table data"
    by (cases v) (auto simp: indexed_frame_def)
  from assms[unfolded v] obtain dates where t: "length dates = length (row_labels data)"
    "index df = sort dates" "map fst (columns df) = field_names data"
    "\<forall>vs \<in> snd ` set (columns df). length vs = length (index df)"
    by (rule indexed_frame_Table_Inr)
  show "sorted (index df)" by (simp add: t(2))
  show "\<forall>vs \<in> snd ` set (columns df). length vs = length (index df)" by (rule t(4))
  show "distinct (map fst (columns df))" by (simp add: t(3) distinct_field_names)
  have "index df = [] \<longleftrightarrow> row_labels data = []"
    by (metis t(1,2) length_sort length_0_conv)
  also have "\<dots> \<longleftrightarrow> map fst (columns df) = []"
    by (simp add: row_labels_Nil_iff t(3))
  finally show "index df = [] \<longleftrightarrow> columns df = []" by simp
qed

lemma get_indicator_Inr:
  assumes "get_indicator l self net params key s = (Inr df, s')"
  shows "sorted (index df)"
    and "\<forall>vs \<in> snd ` set (columns df). length vs = length (index df)"
    and "distinct (map fst (columns df))"
    and "index df = [] \<longleftrightarrow> columns df = []"
proof -
  from assms have "df = DataFrame \<or> (\<exists>v. indexed_frame l v = Inr df)"
    by (auto simp: get_indicator_def api_call_def split: option.splits sum.splits)
  then show "sorted (index df)"
    and "\<forall>vs \<in> snd ` set (columns df). length vs = length (index df)"
    and "distinct (map fst (columns df))"
    and "index df = [] \<longleftrightarrow> columns df = []"
    using indexed_frame_Inr(1)[of l _ df] indexed_frame_Inr(2)[of l _ df]
      indexed_frame_Inr(3)[of l _ df] indexed_frame_Inr(4)[of l _ df]
    by (auto simp: DataFrame_def)
qed

lemma get_price_volume_Inr:
  assumes "get_price_volume l self net symbol s = (Inr df, s')"
  shows "sorted (index df)"
    and "\<forall>vs \<in> snd ` set (columns df). length vs = length (index df)"
    and "map fst (columns df) = [''open'', ''high'', ''low'', ''close'', ''volume'']"
    and "index df \<noteq> []"
proof -
  from assms obtain v df0 where
    i: "indexed_frame l v = Inr df0"
    and sc: "set_columns df0 [''open'', ''high'', ''low'', ''close'', ''volume''] = Inr df"
    by (auto simp: get_price_volume_def api_call_def split: option.splits sum.splits)
  note t = indexed_frame_Inr[OF i]
  from sc have len: "length (columns df0) = 5"
    and df: "df = df0\<lparr>columns := zip [''open'', ''high'', ''low'', ''close'', ''volume''] (map snd (columns df0))\<rparr>"
    by (auto simp: set_columns_def split: if_splits)
  show "sorted (index df)" by (simp add: df t(1))
  show "map fst (columns df) = [''open'', ''high'', ''low'', ''close'', ''volume'']"
    using len by (simp add: df)
  show "\<forall>vs \<in> snd ` set (columns df). length vs = length (index df)"
    using t(2) len by (auto simp: df dest!: set_zip_rightD)
  show "index df \<noteq> []"
    using t(4) len by (auto simp: df)
qed

subsection \<open>The merge\<close>

lemma reindex_same: "reindex (idx, vs) idx = Inr vs"
  by (simp add: reindex_def)

lemma with_volatility_Inr:
  assumes "map fst (columns df) = [''open'', ''high'', ''low'', ''close'', ''volume'']"
  shows "\<exists>close. map_of (columns df) ''close'' = Some close \<and>
     with_volatility df = Inr (df\<lparr>columns := columns df @ [(''volatility'', volatility close)]\<rparr>)"
proof -
  have "''close'' \<in> set (map fst (columns df))"
    unfolding assms by simp
  then have "''close'' \<in> fst ` set (columns df)"
    by simp
  then obtain close where c: "map_of (columns df) ''close'' = Some close"
    by (metis domIff dom_map_of_conv_image_fst not_Some_eq)
  have "''volatility'' \<notin> set (map fst (columns df))"
    unfolding assms by simp
  then have "''volatility'' \<notin> fst ` set (columns df)"
    by simp
  then have "setitem ''volatility'' (volatility close) (columns df) =
      columns df @ [(''volatility'', volatility close)]"
    by (rule setitem_fresh)
  with c show ?thesis
    by (simp add: with_volatility_def getitem_def setitem_series_def reindex_same)
qed

lemma assign_Inr:
  assumes "assign c name ind col = Inr c'"
  obtains vals vs where "map_of (columns ind) col = Some vals"
    "reindex (index ind, vals) (index c) = Inr vs"
    "c' = c\<lparr>columns := setitem name vs (columns c)\<rparr>"
  using assms
  by (auto simp: assign_def getitem_def setitem_series_def split: option.splits sum.splits)

lemma assign_fresh:
  assumes "assign c name ind col = Inr c'" and "name \<notin> set (map fst (columns c))"
  shows "\<exists>vals vs. map_of (columns ind) col = Some vals \<and>
     reindex (index ind, vals) (index c) = Inr vs \<and>
     index c' = index c \<and> columns c' = columns c @ [(name, vs)]"
proof -
  from assms(1) obtain vals vs where
    "map_of (columns ind) col = Some vals" "reindex (index ind, vals) (index c) = Inr vs"
    "c' = c\<lparr>columns := setitem name vs (columns c)\<rparr>"
    by (rule assign_Inr)
  moreover have "setitem name vs (columns c) = columns c @ [(name, vs)]"
    using assms(2) by (intro setitem_fresh) simp
  ultimately show ?thesis by simp
qed

lemma combine_Inr:
  assumes "combine p rsi macd sma = Inr t"
    and names: "map fst (columns p) = [''open'', ''high'', ''low'', ''close'', ''volume'', ''volatility'']"
  obtains R M S where
    "index t = index p" "columns t = columns p @ R @ M @ S"
    "if empty rsi then R = []
     else \<exists>vs. R = [(''rsi'', vs)] \<and> attached rsi ''RSI'' (index p) (''rsi'', vs)"
    "if empty macd then M = []
     else \<exists>vs1 vs2. M = [(''macd'', vs1), (''macd_signal'', vs2)] \<and>
            attached macd ''MACD'' (index p) (''macd'', vs1) \<and>
            attached macd ''MACD_Signal'' (index p) (''macd_signal'', vs2)"
    "if empty sma then S = []
     else \<exists>vs. S = [(''sma_20'', vs)] \<and> attached sma ''SMA'' (index p) (''sma_20'', vs)"
proof -
  from assms(1) obtain c1 c2 where
    s1: "(if \<not> empty rsi then assign p ''rsi'' rsi ''RSI'' else Inr p) = Inr c1"
    and s2: "(if \<not> empty macd
                 then (case assign c1 ''macd'' macd ''MACD'' of
                         Inl e \<Rightarrow> Inl e
                       | Inr c \<Rightarrow> assign c ''macd_signal'' macd ''MACD_Signal'')
                 else Inr c1) = Inr c2"
    and s3: "(if \<not> empty sma then assign c2 ''sma_20'' sma ''SMA'' else Inr c2) = Inr t"
    by (auto simp: combine_def split: sum.splits)
  \<comment> \<open>the RSI step\<close>
  have "\<exists>R. index c1 = index p \<and> columns c1 = columns p @ R \<and>
      (if empty rsi then R = []
       else \<exists>vs. R = [(''rsi'', vs)] \<and> attached rsi ''RSI'' (index p) (''rsi'', vs))"
  proof (cases "empty rsi")
    case True
    with s1 show ?thesis by simp
  next
    case False
    have "''rsi'' \<notin> set (map fst (columns p))" unfolding names by simp
    with False s1 assign_fresh[of p "''rsi''" rsi "''RSI''" c1] show ?thesis
      by (auto simp: attached_def)
  qed
  then obtain R where R: "index c1 = index p" "columns c1 = columns p @ R"
      "if empty rsi then R = []
       else \<exists>vs. R = [(''rsi'', vs)] \<and> attached rsi ''RSI'' (index p) (''rsi'', vs)"
    by blast
  have R': "set (map fst R) \<subseteq> {''rsi''}"
    using R(3) by (auto split: if_splits)
  \<comment> \<open>the MACD step\<close>
  have "\<exists>M. index c2 = index p \<and> columns c2 = columns c1 @ M \<and>
      (if empty macd then M = []
       else \<exists>vs1 vs2. M = [(''macd'', vs1), (''macd_signal'', vs2)] \<and>
            attached macd ''MACD'' (index p) (''macd'', vs1) \<and>
            attached macd ''MACD_Signal'' (index p) (''macd_signal'', vs2))"
  proof (cases "empty macd")
    case True
    with s2 R(1) show ?thesis by simp
  next
    case False
    with s2 obtain c where a1: "assign c1 ''macd'' macd ''MACD'' = Inr c"
      and a2: "assign c ''macd_signal'' macd ''MACD_Signal'' = Inr c2"
      by (auto split: sum.splits)
    have "''macd'' \<notin> set (map fst (columns c1))"
      using R' unfolding R(2) map_append set_append names by auto
    from assign_fresh[OF a1 this] obtain vs1 where
      v1: "attached macd ''MACD'' (index c1) (''macd'', vs1)" "index c = index c1"
        "columns c = columns c1 @ [(''macd'', vs1)]"
      by (auto simp: attached_def)
    have "''macd_signal'' \<notin> set (map fst (columns c))"
      using R' unfolding v1(3) R(2) map_append set_append names by auto
    from assign_fresh[OF a2 this] obtain vs2 where
      v2: "attached macd ''MACD_Signal'' (index c) (''macd_signal'', vs2)" "index c2 = index c"
        "columns c2 = columns c @ [(''macd_signal'', vs2)]"
      by (auto simp: attached_def)
    from False v1 v2 R(1) show ?thesis by simp
  qed
  then obtain M where M: "index c2 = index p" "columns c2 = columns c1 @ M"
      "if empty macd then M = []
       else \<exists>vs1 vs2. M = [(''macd'', vs1), (''macd_signal'', vs2)] \<and>
            attached macd ''MACD'' (index p) (''macd'', vs1) \<and>
            attached macd ''MACD_Signal'' (index p) (''macd_signal'', vs2)"
    by blast
  have M': "set (map fst M) \<subseteq> {''macd'', ''macd_signal''}"
    using M(3) by (auto split: if_splits)
  \<comment> \<open>the SMA step\<close>
  have "\<exists>S. index t = index p \<and> columns t = columns c2 @ S \<and>
      (if empty sma then S = []
       else \<exists>vs. S = [(''sma_20'', vs)] \<and> attached sma ''SMA'' (index p) (''sma_20'', vs))"
  proof (cases "empty sma")
    case True
    with s3 M(1) show ?thesis by auto
  next
    case False
    have "''sma_20'' \<notin> set (map fst (columns c2))"
      using R' M' unfolding M(2) R(2) map_append set_append names by auto
    with False s3 M(1) assign_fresh[of c2 "''sma_20''" sma "''SMA''" t] show ?thesis
      by (auto simp: attached_def)
  qed
  then obtain S where S: "index t = index p" "columns t = columns c2 @ S"
      "if empty sma then S = []
       else \<exists>vs. S = [(''sma_20'', vs)] \<and> attached sma ''SMA'' (index p) (''sma_20'', vs)"
    by blast
  show thesis
    using that[of R M S] R M S by simp
qed

lemma run_Inr:
  assumes "get_stock_data l self net sent = (Inr table, sent')"
  obtains symbol price close rsi macd sma s1 s2 s3 R M S where
    "config self ''symbol'' = Some symbol"
    "get_price_volume l self net symbol sent = (Inr price, s1)"
    "get_rsi l self net symbol s1 = (Inr rsi, s2)"
    "get_macd l self net symbol s2 = (Inr macd, s3)"
    "get_sma l self net symbol s3 = (Inr sma, sent')"
    "map_of (columns price) ''close'' = Some close"
    "index table = index price"
    "columns table = columns price @ [(''volatility'', volatility close)] @ R @ M @ S"
    "if empty rsi then R = []
     else \<exists>vs. R = [(''rsi'', vs)] \<and> attached rsi ''RSI'' (index price) (''rsi'', vs)"
    "if empty macd then M = []
     else \<exists>vs1 vs2. M = [(''macd'', vs1), (''macd_signal'', vs2)] \<and>
            attached macd ''MACD'' (index price) (''macd'', vs1) \<and>
            attached macd ''MACD_Signal'' (index price) (''macd_signal'', vs2)"
    "if empty sma then S = []
     else \<exists>vs. S = [(''sma_20'', vs)] \<and> attached sma ''SMA'' (index price) (''sma_20'', vs)"
proof -
  from assms obtain symbol price price' rsi macd sma s1 s2 s3 where
    g: "config self ''symbol'' = Some symbol"
    "get_price_volume l self net symbol sent = (Inr price, s1)"
    "with_volatility price = Inr price'"
    "get_rsi l self net symbol s1 = (Inr rsi, s2)"
    "get_macd l self net symbol s2 = (Inr macd, s3)"
    "get_sma l self net symbol s3 = (Inr sma, sent')"
    "combine price' rsi macd sma = Inr table"
    by (rule get_stock_data_Inr)
  note pv = get_price_volume_Inr[OF g(2)]
  from with_volatility_Inr[OF pv(3)] g(3) obtain close where
    c: "map_of (columns price) ''close'' = Some close"
    and p': "price' = price\<lparr>columns := columns price @ [(''volatility'', volatility close)]\<rparr>"
    by auto
  have n: "map fst (columns price') = [''open'', ''high'', ''low'', ''close'', ''volume'', ''volatility'']"
    by (simp add: p' pv(3))
  have ip: "index price' = index price"
    by (simp add: p')
  from combine_Inr[OF g(7) n] obtain R M S where
    "index table = index price'" "columns table = columns price' @ R @ M @ S"
    "if empty rsi then R = []
     else \<exists>vs. R = [(''rsi'', vs)] \<and> attached rsi ''RSI'' (index price') (''rsi'', vs)"
    "if empty macd then M = []
     else \<exists>vs1 vs2. M = [(''macd'', vs1), (''macd_signal'', vs2)] \<and>
            attached macd ''MACD'' (index price') (''macd'', vs1) \<and>
            attached macd ''MACD_Signal'' (index price') (''macd_signal'', vs2)"
    "if empty sma then S = []
     else \<exists>vs. S = [(''sma_20'', vs)] \<and> attached sma ''SMA'' (index price') (''sma_20'', vs)"
    by blast
  then have "index table = index price"
    "columns table = columns price @ [(''volatility'', volatility close)] @ R @ M @ S"
    "if empty rsi then R = []
     else \<exists>vs. R = [(''rsi'', vs)] \<and> attached rsi ''RSI'' (index price) (''rsi'', vs)"
    "if empty macd then M = []
     else \<exists>vs1 vs2. M = [(''macd'', vs1), (''macd_signal'', vs2)] \<and>
            attached macd ''MACD'' (index price) (''macd'', vs1) \<and>
            attached macd ''MACD_Signal'' (index price) (''macd_signal'', vs2)"
    "if empty sma then S = []
     else \<exists>vs. S = [(''sma_20'', vs)] \<and> attached sma ''SMA'' (index price) (''sma_20'', vs)"
    unfolding ip by (simp_all add: p')
  then show thesis
    using that[of symbol price s1 rsi s2 macd s3 sma close R M S] g c by blast
qed

lemma get_rsi_fst: "fst (get_rsi l self net symbol s) = fst (get_rsi l self net symbol s')"
  unfolding get_rsi_def using get_indicator_fst by metis

lemma get_macd_fst: "fst (get_macd l self net symbol s) = fst (get_macd l self net symbol s')"
  unfolding get_macd_def using get_indicator_fst by metis

lemma get_sma_fst: "fst (get_sma l self net symbol s) = fst (get_sma l self net symbol s')"
  unfolding get_sma_def using get_indicator_fst by metis

lemma ex_get_stock_data:
  "get_stock_data ex_lib ex_fetcher (ex_net ex_answers) [] = (Inr ex_table, ex_requests)"
  using ex_run by (simp add: main_def init_def ex_fetcher_def)

lemma ex_get_price_volume:
  "fst (get_price_volume ex_lib ex_fetcher (ex_net ex_answers) (PStr ''IBM'') s) = Inr ex_price"
  by (simp add: ex_defs run_defs ex_fetcher_def ex_price_def Let_def upt_rec)

lemma ex_get_rsi:
  "fst (get_rsi ex_lib ex_fetcher (ex_net ex_answers) (PStr ''IBM'') s) = Inr ex_rsi"
  by (simp add: ex_defs run_defs ex_fetcher_def ex_rsi_def Let_def upt_rec)

lemma ex_get_macd:
  "fst (get_macd ex_lib ex_fetcher (ex_net ex_answers) (PStr ''IBM'') s) = Inr DataFrame"
  by (simp add: ex_defs run_defs ex_fetcher_def Let_def upt_rec)

lemma ex_get_sma:
  "fst (get_sma ex_lib ex_fetcher (ex_net ex_answers) (PStr ''IBM'') s) = Inr ex_sma"
  by (simp add: ex_defs run_defs ex_fetcher_def ex_sma_def Let_def upt_rec)

lemma ex_symbol: "config ex_fetcher ''symbol'' = Some (PStr ''IBM'')"
  by (simp add: ex_fetcher_def ex_config_def)

lemma get_indicator_absent:
  assumes "net (outgoing self params) = Some data" and "data key = None \<or> data key = Some (Table [])"
  shows "get_indicator l self net params key s = (Inr DataFrame, s @ [outgoing self params])"
  using assms by (auto simp: get_indicator_def api_call_def indexed_frame_Nil)

lemma get_indicator_Inl:
  "net (outgoing self params) = None \<Longrightarrow>
   get_indicator l self net params key s = (Inl TransportError, s @ [outgoing self params])"
  by (simp add: get_indicator_def api_call_def)

lemma with_volatility_ok:
  assumes "get_price_volume l self net symbol s = (Inr price, s1)"
  shows "\<exists>p. with_volatility price = Inr p"
  using with_volatility_Inr[OF get_price_volume_Inr(3)[OF assms]] by blast

lemma get_price_volume_source:
  assumes "fst (get_price_volume l self net symbol s) = Inr df"
  shows "\<exists>resp data df0. net (outgoing self (price_volume_params symbol)) = Some resp \<and>
     resp ''Time Series (Daily)'' = Some (Table data) \<and>
     indexed_frame l (Table data) = Inr df0 \<and> index df = index df0 \<and>
     map snd (columns df) = map snd (columns df0)"
proof -
  from assms obtain resp v df0 where
    r: "net (outgoing self (price_volume_params symbol)) = Some resp"
    "resp ''Time Series (Daily)'' = Some v" "indexed_frame l v = Inr df0"
    "set_columns df0 [''open'', ''high'', ''low'', ''close'', ''volume''] = Inr df"
    by (auto simp: get_price_volume_def api_call_def split: option.splits sum.splits)
  then obtain data where v: "v = Table data"
    by (cases v) (auto simp: indexed_frame_def)
  from r(4) have "index df = index df0" "map snd (columns df) = map snd (columns df0)"
    by (auto simp: set_columns_def split: if_splits)
  with r v show ?thesis by blast
qed

lemma get_indicator_source:
  assumes "fst (get_indicator l self net params key s) = Inr df"
  shows "df = DataFrame \<or>
     (\<exists>resp data. net (outgoing self params) = Some resp \<and> resp key = Some (Table data) \<and>
        indexed_frame l (Table data) = Inr df)"
proof -
  from assms have "df = DataFrame \<or>
     (\<exists>resp v. net (outgoing self params) = Some resp \<and> resp key = Some v \<and>
        indexed_frame l v = Inr df)"
    by (auto simp: get_indicator_def api_call_def split: option.splits sum.splits)
  then show ?thesis
  proof
    assume "df = DataFrame" then show ?thesis ..
  next
    assume "\<exists>resp v. net (outgoing self params) = Some resp \<and> resp key = Some v \<and>
        indexed_frame l v = Inr df"
    then obtain resp v where r: "net (outgoing self params) = Some resp" "resp key = Some v"
      "indexed_frame l v = Inr df" by blast
    then obtain data where "v = Table data"
      by (cases v) (auto simp: indexed_frame_def)
    with r show ?thesis by blast
  qed
qed

lemma attached_matched:
  assumes "attached ind col idx (name, vs)"
    and "\<forall>vals \<in> snd ` set (columns ind). length vals = length (index ind)"
  shows "matched idx vs ind col"
proof -
  from assms(1) obtain vals where v: "map_of (columns ind) col = Some vals"
    and r: "reindex (index ind, vals) idx = Inr vs"
    by (auto simp: attached_def)
  from v have "(col, vals) \<in> set (columns ind)" by (rule map_of_SomeD)
  then have len: "length vals = length (index ind)"
    using assms(2) by force
  have "length vs = length idx"
    using length_reindex[OF r] len by simp
  moreover have "(idx ! i \<notin> set (index ind) \<and> vs ! i = NaN) \<or>
       (idx ! i, vs ! i) \<in> set (zip (index ind) vals)" if "i < length idx" for i
    using reindex_cell[OF r _ that] len by simp
  ultimately show ?thesis
    using v by (auto simp: matched_def)
qed

subsection \<open>The volatility column of a table\<close>

lemma run_volatility:
  assumes "get_stock_data l self net sent = (Inr table, sent')"
  shows "\<exists>symbol price s1 close. config self ''symbol'' = Some symbol \<and>
     get_price_volume l self net symbol sent = (Inr price, s1) \<and>
     map_of (columns price) ''close'' = Some close \<and>
     map_of (columns table) ''volatility'' = Some (volatility close)"
proof -
  from assms obtain symbol price close rsi macd sma s1 s2 s3 R M S where
    r: "config self ''symbol'' = Some symbol"
    "get_price_volume l self net symbol sent = (Inr price, s1)"
    "map_of (columns price) ''close'' = Some close"
    "columns table = columns price @ [(''volatility'', volatility close)] @ R @ M @ S"
    by (rule run_Inr)
  have "''volatility'' \<notin> set (map fst (columns price))"
    unfolding get_price_volume_Inr(3)[OF r(2)] by simp
  then have "map_of (columns price) ''volatility'' = None"
    by (simp add: map_of_eq_None_iff)
  then have "map_of (columns table) ''volatility'' = Some (volatility close)"
    unfolding r(4) by (simp add: map_add_def)
  with r show ?thesis by blast
qed

lemma table_columns:
  assumes "get_stock_data l self net sent = (Inr table, sent')"
    and "config self ''symbol'' = Some symbol"
    and "fst (get_rsi l self net symbol sr) = Inr rsi"
    and "fst (get_macd l self net symbol sm) = Inr macd"
    and "fst (get_sma l self net symbol ss) = Inr sma"
  shows "map fst (columns table) =
     [''open'', ''high'', ''low'', ''close'', ''volume'', ''volatility'']
     @ (if empty rsi then [] else [''rsi''])
     @ (if empty macd then [] else [''macd'', ''macd_signal''])
     @ (if empty sma then [] else [''sma_20''])"
proof -
  from assms(1) obtain symbol' price close rsi' macd' sma' s1 s2 s3 R M S where
    r: "config self ''symbol'' = Some symbol'"
    "get_price_volume l self net symbol' sent = (Inr price, s1)"
    "get_rsi l self net symbol' s1 = (Inr rsi', s2)"
    "get_macd l self net symbol' s2 = (Inr macd', s3)"
    "get_sma l self net symbol' s3 = (Inr sma', sent')"
    "map_of (columns price) ''close'' = Some close"
    "index table = index price"
    "columns table = columns price @ [(''volatility'', volatility close)] @ R @ M @ S"
    "if empty rsi' then R = []
     else \<exists>vs. R = [(''rsi'', vs)] \<and> attached rsi' ''RSI'' (index price) (''rsi'', vs)"
    "if empty macd' then M = []
     else \<exists>vs1 vs2. M = [(''macd'', vs1), (''macd_signal'', vs2)] \<and>
            attached macd' ''MACD'' (index price) (''macd'', vs1) \<and>
            attached macd' ''MACD_Signal'' (index price) (''macd_signal'', vs2)"
    "if empty sma' then S = []
     else \<exists>vs. S = [(''sma_20'', vs)] \<and> attached sma' ''SMA'' (index price) (''sma_20'', vs)"
    by (rule run_Inr)
  have sy: "symbol' = symbol" using r(1) assms(2) by simp
  have "rsi' = rsi"
    using get_rsi_fst[of l self net symbol sr s1] assms(3) r(3) by (simp add: sy)
  moreover have "macd' = macd"
    using get_macd_fst[of l self net symbol sm s2] assms(4) r(4) by (simp add: sy)
  moreover have "sma' = sma"
    using get_sma_fst[of l self net symbol ss s3] assms(5) r(5) by (simp add: sy)
  moreover have "map fst (columns price) = [''open'', ''high'', ''low'', ''close'', ''volume'']"
    using get_price_volume_Inr(3)[OF r(2)] .
  ultimately show ?thesis
    using r(8-11) by (auto split: if_splits)
qed

section \<open>The claims\<close>

text \<open>
  C8. When the API credential is absent from the environment (the variable is unset, or
  set to the empty string), building the fetcher raises: the run ends with a configuration
  error (that of the configuration file when reading it fails first, that of the credential
  otherwise), no request has been sent and there is no table.
\<close>

theorem missing_credential_is_fatal:
  "init config_file None = Inl (case config_file of None \<Rightarrow> ConfigFileError | Some cfg \<Rightarrow> CredentialError)
   \<and> main l config_file None net =
       (Inl (case config_file of None \<Rightarrow> ConfigFileError | Some cfg \<Rightarrow> CredentialError), [])
   \<and> main l config_file (Some []) net =
       (Inl (case config_file of None \<Rightarrow> ConfigFileError | Some cfg \<Rightarrow> CredentialError), [])"
  by (simp add: main_def init_def split: option.splits)

text \<open>
  C10. Two configurations with the same symbol give the same run, whatever else they hold
  (such as \<^verbatim>\<open>rsi_period\<close>, \<^verbatim>\<open>sma_period\<close>, \<^verbatim>\<open>macd_series_type\<close> or
  \<^verbatim>\<open>sma_series_type\<close>): the same requests and the same result, for the same provider.
  Every RSI request sent has \<^verbatim>\<open>time_period\<close> 14, every SMA request has
  \<^verbatim>\<open>time_period\<close> 20, and both have \<^verbatim>\<open>series_type\<close> \<^verbatim>\<open>close\<close>.
\<close>

theorem indicator_parameters_are_fixed:
  assumes "c1 ''symbol'' = c2 ''symbol''"
  shows "main l (Some c1) getenv net = main l (Some c2) getenv net \<and>
    (\<forall>req \<in> set (snd (main l (Some c1) getenv net)).
       (map_of (snd req) ''function'' = Some (PStr ''RSI'') \<longrightarrow>
          map_of (snd req) ''time_period'' = Some (PInt 14) \<and>
          map_of (snd req) ''series_type'' = Some (PStr ''close'')) \<and>
       (map_of (snd req) ''function'' = Some (PStr ''SMA'') \<longrightarrow>
          map_of (snd req) ''time_period'' = Some (PInt 20) \<and>
          map_of (snd req) ''series_type'' = Some (PStr ''close'')))"
proof
  show "main l (Some c1) getenv net = main l (Some c2) getenv net"
    using assms
    by (auto simp: main_def init_def split: option.splits intro!: get_stock_data_config)
next
  let ?P = "\<lambda>req. (map_of (snd req) ''function'' = Some (PStr ''RSI'') \<longrightarrow>
          map_of (snd req) ''time_period'' = Some (PInt 14) \<and>
          map_of (snd req) ''series_type'' = Some (PStr ''close'')) \<and>
       (map_of (snd req) ''function'' = Some (PStr ''SMA'') \<longrightarrow>
          map_of (snd req) ''time_period'' = Some (PInt 20) \<and>
          map_of (snd req) ''series_type'' = Some (PStr ''close''))"
  have four: "?P (outgoing self (price_volume_params symbol))" "?P (outgoing self (rsi_params symbol))"
    "?P (outgoing self (macd_params symbol))" "?P (outgoing self (sma_params symbol))" for self symbol
    by (simp_all add: outgoing_def map_of_setitem price_volume_params_def rsi_params_def
        macd_params_def sma_params_def)
  show "\<forall>req \<in> set (snd (main l (Some c1) getenv net)). ?P req"
  proof (cases "init (Some c1) getenv")
    case (Inl e)
    then show ?thesis by (simp add: main_def)
  next
    case (Inr self)
    show ?thesis
    proof (cases "config self ''symbol''")
      case None
      then show ?thesis using Inr by (simp add: main_def get_stock_data_def)
    next
      case (Some symbol)
      from get_stock_data_sent[OF Some, of l net "[]"] obtain n where
        "snd (get_stock_data l self net []) =
           take n [outgoing self (price_volume_params symbol), outgoing self (rsi_params symbol),
                    outgoing self (macd_params symbol), outgoing self (sma_params symbol)]"
        by auto
      moreover have "set (take n [outgoing self (price_volume_params symbol), outgoing self (rsi_params symbol),
                    outgoing self (macd_params symbol), outgoing self (sma_params symbol)]) \<subseteq>
           set [outgoing self (price_volume_params symbol), outgoing self (rsi_params symbol),
                    outgoing self (macd_params symbol), outgoing self (sma_params symbol)]"
        by (rule set_take_subset)
      ultimately have "set (snd (main l (Some c1) getenv net)) \<subseteq>
           {outgoing self (price_volume_params symbol), outgoing self (rsi_params symbol),
                    outgoing self (macd_params symbol), outgoing self (sma_params symbol)}"
        using Inr by (simp add: main_def)
      then show ?thesis
        using four[of self symbol] by blast
    qed
  qed
qed

theorem indicator_parameters_are_fixed_witness:
  "main ex_lib (Some (ex_config(''rsi_period'' \<mapsto> PInt 7, ''sma_period'' \<mapsto> PInt 50,
       ''macd_series_type'' \<mapsto> PStr ''open'', ''sma_series_type'' \<mapsto> PStr ''open'')))
     (Some ''demo'') (ex_net ex_answers) = (Inr ex_table, ex_requests)
   \<and> map_of (snd (ex_requests ! 1)) ''function'' = Some (PStr ''RSI'')
   \<and> map_of (snd (ex_requests ! 1)) ''time_period'' = Some (PInt 14)
   \<and> map_of (snd (ex_requests ! 1)) ''series_type'' = Some (PStr ''close'')"
proof -
  let ?c2 = "ex_config(''rsi_period'' \<mapsto> PInt 7, ''sma_period'' \<mapsto> PInt 50,
       ''macd_series_type'' \<mapsto> PStr ''open'', ''sma_series_type'' \<mapsto> PStr ''open'')"
  have h: "ex_config ''symbol'' = ?c2 ''symbol''"
    by simp
  note t = indicator_parameters_are_fixed
    [of ex_config ?c2 ex_lib "Some ''demo''" "ex_net ex_answers", OF h]
  from t have run: "main ex_lib (Some ?c2) (Some ''demo'') (ex_net ex_answers) = (Inr ex_table, ex_requests)"
    by (simp add: ex_run)
  have "ex_requests ! 1 \<in> set (snd (main ex_lib (Some ex_config) (Some ''demo'') (ex_net ex_answers)))"
    by (simp add: ex_run ex_requests_def)
  with t have
    "map_of (snd (ex_requests ! 1)) ''function'' = Some (PStr ''RSI'') \<longrightarrow>
       map_of (snd (ex_requests ! 1)) ''time_period'' = Some (PInt 14) \<and>
       map_of (snd (ex_requests ! 1)) ''series_type'' = Some (PStr ''close'')"
    by blast
  moreover have "map_of (snd (ex_requests ! 1)) ''function'' = Some (PStr ''RSI'')"
    by (simp add: ex_requests_def)
  ultimately show ?thesis
    using run by blast
qed

text \<open>
  C7. When a run returns a table, its columns are, in this order, open, high, low, close,
  volume and volatility, then rsi when the RSI series is not empty, then macd and
  macd_signal when the MACD series is not empty, then sma_20 when the SMA series is not
  empty, and no other column (none for \<^verbatim>\<open>MACD_Hist\<close>).
\<close>

theorem column_order:
  assumes "get_stock_data l self net sent = (Inr table, sent')"
    and "config self ''symbol'' = Some symbol"
    and "fst (get_rsi l self net symbol sr) = Inr rsi"
    and "fst (get_macd l self net symbol sm) = Inr macd"
    and "fst (get_sma l self net symbol ss) = Inr sma"
  shows "map fst (columns table) =
     [''open'', ''high'', ''low'', ''close'', ''volume'', ''volatility'']
     @ (if empty rsi then [] else [''rsi''])
     @ (if empty macd then [] else [''macd'', ''macd_signal''])
     @ (if empty sma then [] else [''sma_20''])"
  using assms by (rule table_columns)

theorem column_order_witness:
  "get_stock_data ex_lib ex_fetcher (ex_net ex_answers) [] = (Inr ex_table, ex_requests)
   \<and> map fst (columns ex_table) =
       [''open'', ''high'', ''low'', ''close'', ''volume'', ''volatility'', ''rsi'', ''sma_20'']"
  using column_order [OF ex_get_stock_data ex_symbol ex_get_rsi ex_get_macd ex_get_sma]
  by (simp add: ex_get_stock_data empty_def ex_rsi_def ex_sma_def DataFrame_def)

text \<open>
  C5. When the response to the request for an optional indicator (RSI, MACD or SMA) has
  no member under the expected payload key, the getter returns the empty frame instead of
  raising, and a table the run returns has no column for that indicator: no \<^verbatim>\<open>rsi\<close>,
  no \<^verbatim>\<open>macd\<close> and \<^verbatim>\<open>macd_signal\<close>, no \<^verbatim>\<open>sma_20\<close>.
\<close>

theorem absent_key_gives_no_column:
  assumes "config self ''symbol'' = Some symbol"
  shows "(\<forall>data. net (outgoing self (rsi_params symbol)) = Some data \<and>
             data ''Technical Analysis: RSI'' = None \<longrightarrow>
           fst (get_rsi l self net symbol s) = Inr DataFrame \<and>
           (\<forall>table sent sent'. get_stock_data l self net sent = (Inr table, sent') \<longrightarrow>
              ''rsi'' \<notin> set (map fst (columns table))))
       \<and> (\<forall>data. net (outgoing self (macd_params symbol)) = Some data \<and>
             data ''Technical Analysis: MACD'' = None \<longrightarrow>
           fst (get_macd l self net symbol s) = Inr DataFrame \<and>
           (\<forall>table sent sent'. get_stock_data l self net sent = (Inr table, sent') \<longrightarrow>
              ''macd'' \<notin> set (map fst (columns table)) \<and>
              ''macd_signal'' \<notin> set (map fst (columns table))))
       \<and> (\<forall>data. net (outgoing self (sma_params symbol)) = Some data \<and>
             data ''Technical Analysis: SMA'' = None \<longrightarrow>
           fst (get_sma l self net symbol s) = Inr DataFrame \<and>
           (\<forall>table sent sent'. get_stock_data l self net sent = (Inr table, sent') \<longrightarrow>
              ''sma_20'' \<notin> set (map fst (columns table))))"
proof -
  have names: "\<exists>rsi macd sma. map fst (columns table) =
       [''open'', ''high'', ''low'', ''close'', ''volume'', ''volatility'']
       @ (if empty rsi then [] else [''rsi''])
       @ (if empty macd then [] else [''macd'', ''macd_signal''])
       @ (if empty sma then [] else [''sma_20'']) \<and>
       fst (get_rsi l self net symbol s) = Inr rsi \<and>
       fst (get_macd l self net symbol s) = Inr macd \<and>
       fst (get_sma l self net symbol s) = Inr sma"
    if run: "get_stock_data l self net sent = (Inr table, sent')" for table sent sent'
  proof -
    from run obtain symbol' price price' rsi macd sma s1 s2 s3 where
      g: "config self ''symbol'' = Some symbol'"
      "get_rsi l self net symbol' s1 = (Inr rsi, s2)"
      "get_macd l self net symbol' s2 = (Inr macd, s3)"
      "get_sma l self net symbol' s3 = (Inr sma, sent')"
      by (rule get_stock_data_Inr)
    have sy: "symbol' = symbol" using g(1) assms by simp
    have r: "fst (get_rsi l self net symbol s) = Inr rsi"
      using get_rsi_fst[of l self net symbol s s1] g(2) by (simp add: sy)
    have m: "fst (get_macd l self net symbol s) = Inr macd"
      using get_macd_fst[of l self net symbol s s2] g(3) by (simp add: sy)
    have a: "fst (get_sma l self net symbol s) = Inr sma"
      using get_sma_fst[of l self net symbol s s3] g(4) by (simp add: sy)
    from table_columns[OF run assms r m a] r m a show ?thesis by blast
  qed
  have e: "empty DataFrame" by (simp add: empty_def DataFrame_def)
  show ?thesis
  proof (intro conjI allI impI)
    fix data assume "net (outgoing self (rsi_params symbol)) = Some data \<and> data ''Technical Analysis: RSI'' = None"
    then show d: "fst (get_rsi l self net symbol s) = Inr DataFrame"
      by (simp add: get_rsi_def get_indicator_absent)
    fix table sent sent' assume "get_stock_data l self net sent = (Inr table, sent')"
    from names[OF this] d e show "''rsi'' \<notin> set (map fst (columns table))"
      by (auto split: if_splits)
  next
    fix data assume "net (outgoing self (macd_params symbol)) = Some data \<and> data ''Technical Analysis: MACD'' = None"
    then show d: "fst (get_macd l self net symbol s) = Inr DataFrame"
      by (simp add: get_macd_def get_indicator_absent)
    fix table sent sent' assume run: "get_stock_data l self net sent = (Inr table, sent')"
    from names[OF run] d e show "''macd'' \<notin> set (map fst (columns table))"
      by (auto split: if_splits)
    from names[OF run] d e show "''macd_signal'' \<notin> set (map fst (columns table))"
      by (auto split: if_splits)
  next
    fix data assume "net (outgoing self (sma_params symbol)) = Some data \<and> data ''Technical Analysis: SMA'' = None"
    then show d: "fst (get_sma l self net symbol s) = Inr DataFrame"
      by (simp add: get_sma_def get_indicator_absent)
    fix table sent sent' assume "get_stock_data l self net sent = (Inr table, sent')"
    from names[OF this] d e show "''sma_20'' \<notin> set (map fst (columns table))"
      by (auto split: if_splits)
  qed
qed

theorem absent_key_gives_no_column_witness:
  "fst (get_macd ex_lib ex_fetcher (ex_net ex_answers) (PStr ''IBM'') []) = Inr DataFrame
   \<and> ''macd'' \<notin> set (map fst (columns ex_table))
   \<and> ''macd_signal'' \<notin> set (map fst (columns ex_table))"
proof -
  have r: "ex_net ex_answers (outgoing ex_fetcher (macd_params (PStr ''IBM''))) =
       Some [''Note'' \<mapsto> Text ''call frequency'']
     \<and> [''Note'' \<mapsto> Text ''call frequency''] ''Technical Analysis: MACD'' = None"
    by (simp add: ex_net_def ex_answers_def outgoing_def macd_params_def)
  from absent_key_gives_no_column [OF ex_symbol, of "ex_net ex_answers" ex_lib "[]"] r ex_get_stock_data
  show ?thesis
    by blast
qed

text \<open>
  C1 (as amended). When the price request and its normalisation succeed, a failure while
  fetching or normalising an optional indicator is not absorbed: the run ends with the
  error of the first getter that fails (RSI, then MACD, then SMA) and returns no table. A
  request that fails in transport makes its getter fail with the transport error.
\<close>

theorem optional_failure_aborts:
  assumes "config self ''symbol'' = Some symbol"
    and "get_price_volume l self net symbol sent = (Inr price, s1)"
  shows "(net (outgoing self (rsi_params symbol)) = None \<longrightarrow>
            fst (get_rsi l self net symbol s1) = Inl TransportError)
       \<and> (net (outgoing self (macd_params symbol)) = None \<longrightarrow>
            (\<forall>s. fst (get_macd l self net symbol s) = Inl TransportError))
       \<and> (net (outgoing self (sma_params symbol)) = None \<longrightarrow>
            (\<forall>s. fst (get_sma l self net symbol s) = Inl TransportError))
       \<and> (\<forall>e s2. get_rsi l self net symbol s1 = (Inl e, s2) \<longrightarrow>
            get_stock_data l self net sent = (Inl e, s2))
       \<and> (\<forall>rsi s2 e s3. get_rsi l self net symbol s1 = (Inr rsi, s2) \<and>
            get_macd l self net symbol s2 = (Inl e, s3) \<longrightarrow>
            get_stock_data l self net sent = (Inl e, s3))
       \<and> (\<forall>rsi s2 macd s3 e s4. get_rsi l self net symbol s1 = (Inr rsi, s2) \<and>
            get_macd l self net symbol s2 = (Inr macd, s3) \<and>
            get_sma l self net symbol s3 = (Inl e, s4) \<longrightarrow>
            get_stock_data l self net sent = (Inl e, s4))"
proof -
  from with_volatility_ok[OF assms(2)] obtain p where p: "with_volatility price = Inr p" ..
  show ?thesis
    using assms p
    by (auto simp: get_stock_data_def get_rsi_def get_macd_def get_sma_def get_indicator_Inl)
qed

theorem optional_failure_aborts_witness:
  "get_stock_data ex_lib ex_fetcher (ex_net ex_answers_bad_rsi) [] = (Inl FloatError, take 2 ex_requests)"
proof -
  have c: "config ex_fetcher ''symbol'' = Some (PStr ''IBM'')"
    by (rule ex_symbol)
  have pv: "get_price_volume ex_lib ex_fetcher (ex_net ex_answers_bad_rsi) (PStr ''IBM'') [] =
      (Inr ex_price, take 1 ex_requests)"
    by (simp add: ex_defs run_defs ex_fetcher_def ex_answers_bad_rsi_def ex_price_def ex_requests_def
        Let_def upt_rec)
  have rsi: "get_rsi ex_lib ex_fetcher (ex_net ex_answers_bad_rsi) (PStr ''IBM'') (take 1 ex_requests) =
      (Inl FloatError, take 2 ex_requests)"
    by (simp add: ex_defs run_defs ex_fetcher_def ex_answers_bad_rsi_def ex_requests_def
        Let_def upt_rec)
  from optional_failure_aborts [OF c pv] rsi show ?thesis
    by blast
qed

text \<open>
  The claim as stated fails: with the prices fetched and normalised, a MACD request that
  fails in transport ends the run after three requests, with the transport error.
\<close>

theorem optional_failure_counterexample:
  "fst (get_price_volume ex_lib ex_fetcher (ex_net ex_answers_no_macd) (PStr ''IBM'') []) = Inr ex_price
   \<and> ex_net ex_answers_no_macd (outgoing ex_fetcher (macd_params (PStr ''IBM''))) = None
   \<and> get_stock_data ex_lib ex_fetcher (ex_net ex_answers_no_macd) [] = (Inl TransportError, take 3 ex_requests)"
  by (simp add: ex_defs run_defs ex_fetcher_def ex_answers_no_macd_def ex_price_def ex_requests_def
      Let_def upt_rec volatility_short)

text \<open>
  C4 (as amended). When the expected payload key is present and maps to zero entries, the
  getter of an optional indicator (RSI, MACD, SMA) returns the empty frame without raising,
  the same value as when the key is absent. The getter of the prices raises in both cases:
  with zero entries the five column names do not fit a frame without columns, with the key
  absent the lookup fails.
\<close>

theorem empty_payload:
  "(\<forall>data. net (outgoing self (rsi_params symbol)) = Some data \<and>
       (data ''Technical Analysis: RSI'' = Some (Table []) \<or> data ''Technical Analysis: RSI'' = None) \<longrightarrow>
       fst (get_rsi l self net symbol s) = Inr DataFrame)
   \<and> (\<forall>data. net (outgoing self (macd_params symbol)) = Some data \<and>
       (data ''Technical Analysis: MACD'' = Some (Table []) \<or> data ''Technical Analysis: MACD'' = None) \<longrightarrow>
       fst (get_macd l self net symbol s) = Inr DataFrame)
   \<and> (\<forall>data. net (outgoing self (sma_params symbol)) = Some data \<and>
       (data ''Technical Analysis: SMA'' = Some (Table []) \<or> data ''Technical Analysis: SMA'' = None) \<longrightarrow>
       fst (get_sma l self net symbol s) = Inr DataFrame)
   \<and> (\<forall>data. net (outgoing self (price_volume_params symbol)) = Some data \<longrightarrow>
       (data ''Time Series (Daily)'' = Some (Table []) \<longrightarrow>
          fst (get_price_volume l self net symbol s) = Inl (LengthMismatch 0 5)) \<and>
       (data ''Time Series (Daily)'' = None \<longrightarrow>
          fst (get_price_volume l self net symbol s) = Inl (KeyError ''Time Series (Daily)'')))"
proof (intro conjI allI impI)
  fix data
  assume "net (outgoing self (price_volume_params symbol)) = Some data"
    and "data ''Time Series (Daily)'' = Some (Table [])"
  then show "fst (get_price_volume l self net symbol s) = Inl (LengthMismatch 0 5)"
    by (simp add: get_price_volume_def api_call_def indexed_frame_Nil set_columns_def DataFrame_def)
next
  fix data
  assume "net (outgoing self (price_volume_params symbol)) = Some data"
    and "data ''Time Series (Daily)'' = None"
  then show "fst (get_price_volume l self net symbol s) = Inl (KeyError ''Time Series (Daily)'')"
    by (simp add: get_price_volume_def api_call_def)
qed (auto simp: get_rsi_def get_macd_def get_sma_def get_indicator_absent)

theorem empty_payload_witness:
  "fst (get_rsi ex_lib ex_fetcher (ex_net ex_answers_empty) (PStr ''IBM'') []) = Inr DataFrame
   \<and> fst (get_price_volume ex_lib ex_fetcher (ex_net ex_answers_empty) (PStr ''IBM'') []) =
       Inl (LengthMismatch 0 5)"
proof -
  have r: "ex_net ex_answers_empty (outgoing ex_fetcher (rsi_params (PStr ''IBM''))) =
       Some [''Technical Analysis: RSI'' \<mapsto> Table []]"
    and p: "ex_net ex_answers_empty (outgoing ex_fetcher (price_volume_params (PStr ''IBM''))) =
       Some [''Time Series (Daily)'' \<mapsto> Table []]"
    by (simp_all add: ex_net_def ex_answers_empty_def outgoing_def rsi_params_def
        price_volume_params_def)
  note t = empty_payload [of "ex_net ex_answers_empty" ex_fetcher "PStr ''IBM''" ex_lib "[]"]
  from t r have "fst (get_rsi ex_lib ex_fetcher (ex_net ex_answers_empty) (PStr ''IBM'') []) = Inr DataFrame"
    by simp
  moreover from t p have "fst (get_price_volume ex_lib ex_fetcher (ex_net ex_answers_empty) (PStr ''IBM'') []) =
      Inl (LengthMismatch 0 5)"
    by simp
  ultimately show ?thesis
    by simp
qed

text \<open>
  The claim as stated fails for the prices: a payload with zero entries makes
  \<^verbatim>\<open>_get_price_volume\<close> raise.
\<close>

theorem empty_payload_counterexample:
  "ex_net ex_answers_empty (outgoing ex_fetcher (price_volume_params (PStr ''IBM''))) =
       Some [''Time Series (Daily)'' \<mapsto> Table []]
   \<and> get_price_volume ex_lib ex_fetcher (ex_net ex_answers_empty) (PStr ''IBM'') [] =
       (Inl (LengthMismatch 0 5), take 1 ex_requests)"
  by (simp add: ex_defs run_defs ex_fetcher_def ex_answers_empty_def ex_requests_def
      Let_def)

text \<open>
  C9 (as amended). A normalised series (the frame the three shared lines build from a
  payload; each of the four getters returns it, the price getter under its own column
  names) has as its index the parsed row labels in ascending order, with one row for each
  payload row that has a field: no two rows are collapsed. The rows are those of the
  payload in some order \<open>p\<close> of their positions, the same for the index and for every
  column, so each date keeps the fields of its row, and the columns are the field names in
  the order of the payload. The dates are unique exactly when the parsed labels are
  pairwise different, and they are then strictly ascending.
\<close>

theorem normalised_dates:
  "(\<forall>data df. indexed_frame l (Table data) = Inr df \<longrightarrow>
      (\<exists>dates p. datetime_index l (row_labels data) = Inr dates \<and>
         length dates = length (row_labels data) \<and>
         distinct p \<and> set p = {0..<length dates} \<and>
         index df = map (\<lambda>k. dates ! k) p \<and>
         columns df =
           map (\<lambda>c. (c, map (\<lambda>k. the (cell l data c (row_labels data ! k))) p)) (field_names data) \<and>
         index df = sort dates \<and>
         sorted (index df) \<and>
         length (index df) = length (row_labels data) \<and>
         (distinct (index df) \<longleftrightarrow> distinct dates) \<and>
         (distinct dates \<longrightarrow> sorted_wrt (<) (index df))))
   \<and> (\<forall>df. fst (get_price_volume l self net symbol s) = Inr df \<longrightarrow>
        (\<exists>resp data df0. net (outgoing self (price_volume_params symbol)) = Some resp \<and>
           resp ''Time Series (Daily)'' = Some (Table data) \<and>
           indexed_frame l (Table data) = Inr df0 \<and> index df = index df0 \<and>
           map snd (columns df) = map snd (columns df0)))
   \<and> (\<forall>df. fst (get_indicator l self net params key s) = Inr df \<longrightarrow>
        df = DataFrame \<or>
        (\<exists>resp data. net (outgoing self params) = Some resp \<and> resp key = Some (Table data) \<and>
           indexed_frame l (Table data) = Inr df))"
proof (intro conjI allI impI)
  fix data df assume a: "indexed_frame l (Table data) = Inr df"
  from a obtain dates where t: "datetime_index l (row_labels data) = Inr dates"
    "length dates = length (row_labels data)"
    "index df = map (\<lambda>k. dates ! k) (row_order l dates)"
    "columns df =
      map (\<lambda>c. (c, map (\<lambda>k. the (cell l data c (row_labels data ! k))) (row_order l dates)))
        (field_names data)"
    "index df = sort dates"
    by (rule indexed_frame_Table_Inr)
  note p = sorting_perm[OF sorting_row_order[of l dates]]
  have "sorted (index df)" "length (index df) = length (row_labels data)"
    "distinct (index df) \<longleftrightarrow> distinct dates"
    "distinct dates \<longrightarrow> sorted_wrt (<) (index df)"
    by (simp_all add: t(2,5) strict_sorted_iff)
  with t p(3,4)
  show "\<exists>dates p. datetime_index l (row_labels data) = Inr dates \<and>
         length dates = length (row_labels data) \<and>
         distinct p \<and> set p = {0..<length dates} \<and>
         index df = map (\<lambda>k. dates ! k) p \<and>
         columns df =
           map (\<lambda>c. (c, map (\<lambda>k. the (cell l data c (row_labels data ! k))) p)) (field_names data) \<and>
         index df = sort dates \<and>
         sorted (index df) \<and>
         length (index df) = length (row_labels data) \<and>
         (distinct (index df) \<longleftrightarrow> distinct dates) \<and>
         (distinct dates \<longrightarrow> sorted_wrt (<) (index df))"
    by blast
qed (use get_price_volume_source get_indicator_source in blast)+

theorem normalised_dates_witness:
  "indexed_frame ex_lib (Table [(''2024-01-03'', [(''SMA'', ''2'')]), (''2024-01-02'', [(''SMA'', ''1'')])]) =
     Inr ex_sma
   \<and> index ex_sma = sort [19725, 19724]
   \<and> columns ex_sma = [(''SMA'', [Fin 1, Fin 2])]
   \<and> sorted_wrt (<) (index ex_sma) \<and> distinct (index ex_sma)"
proof -
  let ?data = "[(''2024-01-03'', [(''SMA'', ''2'')]), (''2024-01-02'', [(''SMA'', ''1'')])]"
  have a: "indexed_frame ex_lib (Table ?data) = Inr ex_sma"
    by (simp add: ex_defs run_defs ex_sma_def Let_def upt_rec)
  have d: "datetime_index ex_lib (row_labels ?data) = Inr [19725, 19724]"
    by (simp add: ex_lib_def datetime_index_def row_labels_def field_names_def first_seen_def)
  from normalised_dates [of ex_lib ex_fetcher "ex_net ex_answers" "PStr ''IBM''" "[]" "[]" "[]"] a d
  have "index ex_sma = sort [19725, 19724] \<and> sorted_wrt (<) (index ex_sma) \<and> distinct (index ex_sma)"
    by fastforce
  with a show ?thesis
    by (simp add: ex_sma_def)
qed

text \<open>
  The claim as stated fails: two labels that \<^verbatim>\<open>pd.to_datetime\<close> reads as the same day
  (\<^verbatim>\<open>01/02/2024\<close> and \<^verbatim>\<open>1/2/2024\<close>) give a series with that date twice.
\<close>

theorem normalised_dates_counterexample:
  "fst (get_rsi ex_lib ex_fetcher (ex_net ex_answers_two_formats) (PStr ''IBM'') []) =
     Inr \<lparr>index = [19724, 19724], columns = [(''RSI'', [Fin 1, Fin 2])]\<rparr>
   \<and> \<not> distinct [19724, 19724 :: timestamp]
   \<and> \<not> sorted_wrt (<) [19724, 19724 :: timestamp]"
  by (simp add: ex_defs run_defs ex_fetcher_def ex_answers_two_formats_def Let_def upt_rec)

text \<open>
  C3. When a run returns a table, its index is the index of the normalised price series,
  in that ascending order: no price row is dropped and none is added, and the first five
  columns are the price columns as they are. Each cell of an optional column (rsi, macd,
  macd_signal, sma_20) is NaN for a date the indicator's series lacks, and is otherwise
  the value the series holds in a row of exactly that date: nothing is interpolated.
\<close>

theorem merged_rows:
  assumes "get_stock_data l self net sent = (Inr table, sent')"
    and "config self ''symbol'' = Some symbol"
    and "fst (get_price_volume l self net symbol sp) = Inr price"
    and "fst (get_rsi l self net symbol sr) = Inr rsi"
    and "fst (get_macd l self net symbol sm) = Inr macd"
    and "fst (get_sma l self net symbol ss) = Inr sma"
  shows "index table = index price \<and> sorted (index table)
     \<and> take 5 (columns table) = columns price
     \<and> (\<forall>vs. map_of (columns table) ''rsi'' = Some vs \<longrightarrow> matched (index table) vs rsi ''RSI'')
     \<and> (\<forall>vs. map_of (columns table) ''macd'' = Some vs \<longrightarrow> matched (index table) vs macd ''MACD'')
     \<and> (\<forall>vs. map_of (columns table) ''macd_signal'' = Some vs \<longrightarrow>
           matched (index table) vs macd ''MACD_Signal'')
     \<and> (\<forall>vs. map_of (columns table) ''sma_20'' = Some vs \<longrightarrow> matched (index table) vs sma ''SMA'')"
proof -
  from assms(1) obtain symbol' price' close rsi' macd' sma' s1 s2 s3 R M S where
    r: "config self ''symbol'' = Some symbol'"
    "get_price_volume l self net symbol' sent = (Inr price', s1)"
    "get_rsi l self net symbol' s1 = (Inr rsi', s2)"
    "get_macd l self net symbol' s2 = (Inr macd', s3)"
    "get_sma l self net symbol' s3 = (Inr sma', sent')"
    "map_of (columns price') ''close'' = Some close"
    "index table = index price'"
    "columns table = columns price' @ [(''volatility'', volatility close)] @ R @ M @ S"
    "if empty rsi' then R = []
     else \<exists>vs. R = [(''rsi'', vs)] \<and> attached rsi' ''RSI'' (index price') (''rsi'', vs)"
    "if empty macd' then M = []
     else \<exists>vs1 vs2. M = [(''macd'', vs1), (''macd_signal'', vs2)] \<and>
            attached macd' ''MACD'' (index price') (''macd'', vs1) \<and>
            attached macd' ''MACD_Signal'' (index price') (''macd_signal'', vs2)"
    "if empty sma' then S = []
     else \<exists>vs. S = [(''sma_20'', vs)] \<and> attached sma' ''SMA'' (index price') (''sma_20'', vs)"
    by (rule run_Inr)
  have sy: "symbol' = symbol" using r(1) assms(2) by simp
  have "fst (get_price_volume l self net symbol sent) = fst (get_price_volume l self net symbol sp)"
    using get_price_volume_fst[of l self net symbol sp]
      get_price_volume_fst[of l self net symbol sent] by simp
  then have p: "price' = price"
    using assms(3) r(2) by (simp add: sy)
  have i: "rsi' = rsi"
    using get_rsi_fst[of l self net symbol sr s1] assms(4) r(3) by (simp add: sy)
  have m: "macd' = macd"
    using get_macd_fst[of l self net symbol sm s2] assms(5) r(4) by (simp add: sy)
  have a: "sma' = sma"
    using get_sma_fst[of l self net symbol ss s3] assms(6) r(5) by (simp add: sy)
  note pv = get_price_volume_Inr[OF r(2)[unfolded p sy]]
  note wr = get_indicator_Inr(2)[OF r(3)[unfolded get_rsi_def i]]
  note wm = get_indicator_Inr(2)[OF r(4)[unfolded get_macd_def m]]
  note ws = get_indicator_Inr(2)[OF r(5)[unfolded get_sma_def a]]
  have idx: "index table = index price" using r(7) p by simp
  have cols: "columns table = columns price @ [(''volatility'', volatility close)] @ R @ M @ S"
    using r(8) p by simp
  have len: "length (columns price) = 5"
    using arg_cong[OF pv(3), of length] by simp
  have R: "if empty rsi then R = []
     else \<exists>vs. R = [(''rsi'', vs)] \<and> attached rsi ''RSI'' (index table) (''rsi'', vs)"
    using r(9) unfolding i p idx .
  have M: "if empty macd then M = []
     else \<exists>vs1 vs2. M = [(''macd'', vs1), (''macd_signal'', vs2)] \<and>
            attached macd ''MACD'' (index table) (''macd'', vs1) \<and>
            attached macd ''MACD_Signal'' (index table) (''macd_signal'', vs2)"
    using r(10) unfolding m p idx .
  have S: "if empty sma then S = []
     else \<exists>vs. S = [(''sma_20'', vs)] \<and> attached sma ''SMA'' (index table) (''sma_20'', vs)"
    using r(11) unfolding a p idx .
  have base: "fst ` set (columns price @ [(''volatility'', volatility close)]) =
      {''open'', ''high'', ''low'', ''close'', ''volume'', ''volatility''}"
    using arg_cong[OF pv(3), of set] by auto
  have where_: "(k, vs) \<in> set (R @ M @ S)"
    if "map_of (columns table) k = Some vs"
      and "k \<notin> {''open'', ''high'', ''low'', ''close'', ''volume'', ''volatility''}" for k vs
  proof -
    from that(1) have "(k, vs) \<in> set (columns table)" by (rule map_of_SomeD)
    then have "(k, vs) \<in> set (columns price @ [(''volatility'', volatility close)]) \<or>
        (k, vs) \<in> set (R @ M @ S)"
      unfolding cols by auto
    moreover have "(k, vs) \<notin> set (columns price @ [(''volatility'', volatility close)])"
      using base that(2) by (metis fst_conv image_eqI)
    ultimately show ?thesis by blast
  qed
  show ?thesis
  proof (intro conjI allI impI)
    show "index table = index price" by (rule idx)
    show "sorted (index table)" using pv(1) idx by simp
    show "take 5 (columns table) = columns price" using len cols by simp
  next
    fix vs assume "map_of (columns table) ''rsi'' = Some vs"
    from where_[OF this] have "(''rsi'', vs) \<in> set (R @ M @ S)" by simp
    with R M S have "attached rsi ''RSI'' (index table) (''rsi'', vs)"
      by (auto split: if_splits)
    then show "matched (index table) vs rsi ''RSI''"
      using wr by (rule attached_matched)
  next
    fix vs assume "map_of (columns table) ''macd'' = Some vs"
    from where_[OF this] have "(''macd'', vs) \<in> set (R @ M @ S)" by simp
    with R M S have "attached macd ''MACD'' (index table) (''macd'', vs)"
      by (auto split: if_splits)
    then show "matched (index table) vs macd ''MACD''"
      using wm by (rule attached_matched)
  next
    fix vs assume "map_of (columns table) ''macd_signal'' = Some vs"
    from where_[OF this] have "(''macd_signal'', vs) \<in> set (R @ M @ S)" by simp
    with R M S have "attached macd ''MACD_Signal'' (index table) (''macd_signal'', vs)"
      by (auto split: if_splits)
    then show "matched (index table) vs macd ''MACD_Signal''"
      using wm by (rule attached_matched)
  next
    fix vs assume "map_of (columns table) ''sma_20'' = Some vs"
    from where_[OF this] have "(''sma_20'', vs) \<in> set (R @ M @ S)" by simp
    with R M S have "attached sma ''SMA'' (index table) (''sma_20'', vs)"
      by (auto split: if_splits)
    then show "matched (index table) vs sma ''SMA''"
      using ws by (rule attached_matched)
  qed
qed


theorem merged_rows_witness:
  "index ex_table = index ex_price
   \<and> take 5 (columns ex_table) = columns ex_price
   \<and> map_of (columns ex_table) ''rsi'' = Some [NaN, Fin 3]
   \<and> matched (index ex_table) [NaN, Fin 3] ex_rsi ''RSI''"
proof -
  have c: "map_of (columns ex_table) ''rsi'' = Some [NaN, Fin 3]"
    by (simp add: ex_table_def)
  from merged_rows [OF ex_get_stock_data ex_symbol ex_get_price_volume ex_get_rsi ex_get_macd
      ex_get_sma] c
  show ?thesis
    by blast
qed




text \<open>
  C6. For a price series with finite closes the computation has a value for every row and
  raises nowhere. Where the close of the previous row is zero, \<^verbatim>\<open>pct_change\<close>
  gives an infinity or NaN, which the rolling window takes as a missing value: the change
  counts as undefined in each of the windows that hold it, those of the rows \<open>i\<close> to
  \<open>i + 19\<close>, whose volatility is therefore NaN.
\<close>

theorem zero_close_is_null:
  assumes "0 < i" and "i < length close" and "close ! (i - 1) = 0"
  shows "length (volatility (map Fin close)) = length close
       \<and> pct_change (map Fin close) ! i \<in> {PInf, NInf, NaN}
       \<and> prep_values (pct_change (map Fin close)) ! i = None
       \<and> (\<forall>j. i \<le> j \<and> j < i + 20 \<and> j < length close \<longrightarrow>
            volatility (map Fin close) ! j = NaN)"
proof (intro conjI allI impI)
  show "length (volatility (map Fin close)) = length close"
    by simp
  have n: "pct close i = None"
    using assms by (simp add: pct_def)
  with assms(2) show "pct_change (map Fin close) ! i \<in> {PInf, NInf, NaN}"
    unfolding pct_change_def by (rule pct_change_with_undefined)
  from assms(2) n show p: "prep_values (pct_change (map Fin close)) ! i = None"
    unfolding pct_change_def by (rule prep_pct_change_with_undefined)
  fix j assume j: "i \<le> j \<and> j < i + 20 \<and> j < length close"
  then have "rolling_std_with round64 20 (pct_change (map Fin close)) ! j = NaN"
    using p by (intro rolling_std_with_None[of 20 j _ i]) simp_all
  then show "volatility (map Fin close) ! j = NaN"
    by (simp add: volatility_def volatility_with_def pct_change_def)
qed

theorem zero_close_is_null_witness:
  "pct_change (map Fin (0 # replicate 21 1)) ! 1 = PInf
   \<and> prep_values (pct_change (map Fin (0 # replicate 21 1))) ! 1 = None
   \<and> volatility (map Fin (0 # replicate 21 1)) ! 20 = NaN"
proof -
  let ?c = "0 # replicate 21 (1::real)"
  have h: "(0::nat) < 1" "1 < length ?c" "?c ! (1 - 1) = 0"
    by simp_all
  have "pct_change (map Fin ?c) ! 1 = PInf"
    unfolding pct_change_def using pct_change_with_nth[of 1 ?c round64] by simp
  moreover from zero_close_is_null [OF h]
  have "prep_values (pct_change (map Fin ?c)) ! 1 = None"
    and "volatility (map Fin ?c) ! 20 = NaN"
    by simp_all
  ultimately show ?thesis by simp
qed

end
